theory Spec2Isabelle
  imports Main
begin

section \<open>Mascot reactor (static/mascot.js)\<close>

subsection \<open>Strings and \<open>parseInt\<close>\<close>

text \<open>
  Captions and selectors are \<open>string\<close>s; the emoji of the source's literals are written as
  their UTF-8 bytes and the apostrophe as \<open>CHR 0x27\<close>. The text of a score readout is a
  list of UTF-16 code units, which is what \<open>parseInt\<close> inspects.
\<close>

type_synonym jsstring = "nat list"

definition code_units :: "string \<Rightarrow> jsstring" where
  "code_units cs = map of_char cs"

text \<open>White space and line terminators skipped by \<open>parseInt\<close> (ECMAScript \<open>StrWhiteSpaceChar\<close>).\<close>

definition isWhiteSpace :: "nat \<Rightarrow> bool" where
  "isWhiteSpace c \<longleftrightarrow>
     c \<in> {0x09, 0x0A, 0x0B, 0x0C, 0x0D, 0x20, 0xA0, 0x1680, 0x2028, 0x2029, 0x202F,
          0x205F, 0x3000, 0xFEFF} \<or> (0x2000 \<le> c \<and> c \<le> 0x200A)"

text \<open>The value of a code unit as a digit of the given radix, if it is one.\<close>

definition digitValue :: "nat \<Rightarrow> nat \<Rightarrow> nat option" where
  "digitValue radix c =
     (let v = (if 0x30 \<le> c \<and> c \<le> 0x39 then Some (c - 0x30)
               else if 0x61 \<le> c \<and> c \<le> 0x7A then Some (c - 0x61 + 10)
               else if 0x41 \<le> c \<and> c \<le> 0x5A then Some (c - 0x41 + 10)
               else None)
      in case v of None \<Rightarrow> None | Some d \<Rightarrow> if d < radix then Some d else None)"

fun takeDigits :: "nat \<Rightarrow> jsstring \<Rightarrow> nat list" where
  "takeDigits radix [] = []"
| "takeDigits radix (c # cs) =
     (case digitValue radix c of None \<Rightarrow> [] | Some d \<Rightarrow> d # takeDigits radix cs)"

definition stripSign :: "jsstring \<Rightarrow> int \<times> jsstring" where
  "stripSign s =
     (case s of [] \<Rightarrow> (1, [])
      | c # cs \<Rightarrow> if c = 0x2D then (-1, cs) else if c = 0x2B then (1, cs) else (1, s))"

definition stripPrefix :: "jsstring \<Rightarrow> nat \<times> jsstring" where
  "stripPrefix s =
     (case s of c # d # cs \<Rightarrow> if c = 0x30 \<and> (d = 0x78 \<or> d = 0x58) then (16, cs) else (10, s)
      | _ \<Rightarrow> (10, s))"

text \<open>
  \<open>parseInt(text)\<close> with no radix argument. \<open>None\<close> is \<open>NaN\<close>. The result is kept as an
  exact integer: the source only compares it with 60, 50 and 70, and rounding a long digit
  string to a double (or to an infinity) does not move it across such a bound.
\<close>

definition parseInt :: "jsstring \<Rightarrow> int option" where
  "parseInt text =
     (let (sign, s1) = stripSign (dropWhile isWhiteSpace text);
          (radix, s2) = stripPrefix s1;
          z = takeDigits radix s2
      in if z = [] then None
         else Some (sign * int (foldl (\<lambda>acc d. acc * radix + d) 0 z)))"

text \<open>\<open>parseInt(text) < bound\<close>: a comparison with \<open>NaN\<close> is false.\<close>

definition scoreBelow :: "jsstring \<Rightarrow> int \<Rightarrow> bool" where
  "scoreBelow text bound = (case parseInt text of None \<Rightarrow> False | Some v \<Rightarrow> v < bound)"


subsection \<open>Expressions, the hover registry and the document\<close>

datatype expression = standing | happy | thinking | sad

text \<open>\<open>mascot.src.substring(0, mascot.src.lastIndexOf('/') + 1)\<close>\<close>

definition basePathOf :: "string \<Rightarrow> string" where
  "basePathOf url = rev (dropWhile (\<lambda>c. c \<noteq> CHR ''/'') (rev url))"

definition expressions :: "string \<Rightarrow> expression \<Rightarrow> string" where
  "expressions basePath e =
     basePath @ (case e of standing \<Rightarrow> ''fox_standing.png'' | happy \<Rightarrow> ''fox_happy.png''
                 | thinking \<Rightarrow> ''fox_thinking.png'' | sad \<Rightarrow> ''fox_sad.png'')"

definition defaultMessage :: string where
  "defaultMessage = ''Hi! Hover over different sections to see me react!''"

text \<open>
  The keys of \<open>expressionMap\<close> are of three shapes: a tag name, a tag name with a
  \<open>type\<close> attribute value, and a class name.
\<close>

datatype selector = Tag string | TagType string string | Class string

text \<open>\<open>expressionMap\<close>, in the order of its keys (the order \<open>Object.keys\<close> enumerates).\<close>

definition expressionMap :: "(selector \<times> expression \<times> string) list" where
  "expressionMap =
   [(TagType ''button'' ''submit'', happy,
       ''Ready? Let'' @ [CHR 0x27] @ ''s do this! '' @ [CHR 0xF0, CHR 0x9F, CHR 0x92, CHR 0xAA]),
    (Class ''btn-primary'', happy,
       ''Click here to start the magic! '' @ [CHR 0xE2, CHR 0x9C, CHR 0xA8]),
    (Class ''btn-success'', happy,
       ''Great choice! Let'' @ [CHR 0x27] @ ''s go! '' @ [CHR 0xF0, CHR 0x9F, CHR 0x8E, CHR 0x89]),
    (Class ''score-card'', happy,
       ''Let'' @ [CHR 0x27] @ ''s see your amazing results! ''
         @ [CHR 0xF0, CHR 0x9F, CHR 0x93, CHR 0x8A]),
    (Class ''strength-item'', happy,
       ''Wow! This is one of your strengths! '' @ [CHR 0xF0, CHR 0x9F, CHR 0x92, CHR 0xAA]),
    (Class ''skill-tag'', happy,
       ''You have this skill! Awesome! '' @ [CHR 0xF0, CHR 0x9F, CHR 0x8C, CHR 0x9F]),
    (TagType ''input'' ''text'', thinking,
       ''Hmm... what should we enter here? '' @ [CHR 0xF0, CHR 0x9F, CHR 0xA4, CHR 0x94]),
    (TagType ''input'' ''email'', thinking,
       ''Your email address goes here! '' @ [CHR 0xF0, CHR 0x9F, CHR 0x93, CHR 0xA7]),
    (TagType ''input'' ''file'', thinking,
       ''Select your resume file here! '' @ [CHR 0xF0, CHR 0x9F, CHR 0x93, CHR 0x84]),
    (Tag ''select'', thinking,
       ''Let me think... what role are you targeting? ''
         @ [CHR 0xF0, CHR 0x9F, CHR 0x8E, CHR 0xAF]),
    (Tag ''textarea'', thinking,
       ''Time to write something thoughtful! ''
         @ [CHR 0xE2, CHR 0x9C, CHR 0x8D, CHR 0xEF, CHR 0xB8, CHR 0x8F]),
    (Class ''file-label'', thinking,
       ''Pick a resume to analyze! '' @ [CHR 0xF0, CHR 0x9F, CHR 0x93, CHR 0x82]),
    (Class ''upload-card'', thinking,
       ''Upload your resume and let'' @ [CHR 0x27] @ ''s see! ''
         @ [CHR 0xF0, CHR 0x9F, CHR 0x94, CHR 0x8D]),
    (Class ''feedback-section'', thinking,
       ''Let me think about these suggestions... '' @ [CHR 0xF0, CHR 0x9F, CHR 0x92, CHR 0xAD]),
    (Class ''suggestion-item'', thinking,
       ''This is worth considering! '' @ [CHR 0xF0, CHR 0x9F, CHR 0x92, CHR 0xA1]),
    (Tag ''a'', standing,
       ''Want to go there? I'' @ [CHR 0x27] @ ''ll come with you! ''
         @ [CHR 0xF0, CHR 0x9F, CHR 0x91, CHR 0x8B]),
    (Class ''nav-link'', standing,
       ''Let'' @ [CHR 0x27] @ ''s navigate together! '' @ [CHR 0xF0, CHR 0x9F, CHR 0xA7, CHR 0xAD]),
    (Class ''feature-item'', standing,
       ''Check out this cool feature! '' @ [CHR 0xE2, CHR 0xAD, CHR 0x90]),
    (Class ''auth-card'', standing,
       ''Welcome! Let'' @ [CHR 0x27] @ ''s get you started! ''
         @ [CHR 0xF0, CHR 0x9F, CHR 0x91, CHR 0x8B]),
    (Class ''missing-skills'', sad,
       ''These skills are missing... let'' @ [CHR 0x27] @ ''s add them! ''
         @ [CHR 0xF0, CHR 0x9F, CHR 0x98, CHR 0xA2]),
    (Class ''error'', sad,
       ''Oh no! Something went wrong... '' @ [CHR 0xF0, CHR 0x9F, CHR 0x98, CHR 0x94]),
    (TagType ''input'' ''password'', thinking,
       ''Keep your secret safe! '' @ [CHR 0xF0, CHR 0x9F, CHR 0x94, CHR 0x90])]"

text \<open>
  An element of the served page, as far as the script looks at it: tag name and \<open>type\<close>
  attribute (in the lower case in which an HTML document compares them), classes, the number
  of child elements, and whether the markup already carries \<open>data-mascot-listener\<close>.
\<close>

record node =
  tagName :: string
  typeAttr :: "string option"
  classList :: "string list"
  childCount :: nat
  markerAttr :: bool

text \<open>
  A live element: its node, whether it has the \<open>data-mascot-listener\<close> attribute now, and
  the selectors under which a mouseenter/mouseleave listener pair was added to it (each
  pair closes over its \<open>selector\<close>), in the order of registration.
\<close>

record element =
  node :: node
  marked :: bool
  listeners :: "selector list"

definition loadElement :: "node \<Rightarrow> element" where
  "loadElement n = \<lparr>node = n, marked = markerAttr n, listeners = []\<rparr>"

fun matches :: "selector \<Rightarrow> element \<Rightarrow> bool" where
  "matches (Tag t) e = (tagName (node e) = t)"
| "matches (TagType t v) e = (tagName (node e) = t \<and> typeAttr (node e) = Some v)"
| "matches (Class c) e = (c \<in> set (classList (node e)))"

text \<open>
  The served document: the \<open>src\<close> of the \<open>.mascot\<close> image and the text of the
  \<open>.bubble-text\<close> caption (\<open>None\<close> when the element is absent), the \<open>textContent\<close> of the
  first \<open>.ats-score .score-value\<close>, \<open>.job-match-score .score-value\<close> and
  \<open>.grammar-score .score-value\<close> elements, and its elements in document order.
\<close>

record document =
  mascot :: "string option"
  bubble :: "string option"
  atsScoreText :: "jsstring option"
  jobMatchScoreText :: "jsstring option"
  grammarScoreText :: "jsstring option"
  nodes :: "node list"


subsection \<open>State, timers and the transition functions\<close>

text \<open>The functions handed to \<open>setTimeout\<close> and \<open>setInterval\<close>.\<close>

datatype callback =
    FadeSwap expression  \<comment> \<open>the arrow function of \<open>changeMascotExpression\<close>\<close>
  | ResetMascot          \<comment> \<open>\<open>resetMascot\<close>\<close>
  | Unlock               \<comment> \<open>the arrow function of \<open>checkScores\<close>\<close>
  | Startup              \<comment> \<open>the arrow function of \<open>init\<close>\<close>
  | Rescan               \<comment> \<open>\<open>setupHoverDetection\<close>, on the interval\<close>

record timer =
  handle :: nat
  due :: nat
  delay :: nat
  repeating :: bool
  action :: callback

text \<open>
  The variables of the script's closure, the properties of the image and of the caption
  that it writes, the live elements, and the browser's timer table and clock (in ms).
\<close>

record mascot_state =
  page :: document
  elements :: "element list"
  basePath :: string
  src :: string
  opacity :: string
  transition :: string
  textContent :: string
  color :: string
  currentExpression :: expression
  isLocked :: bool
  hoverTimeout :: "nat option"
  timers :: "timer list"
  nextHandle :: nat
  now :: nat

definition setTimeout :: "callback \<Rightarrow> nat \<Rightarrow> mascot_state \<Rightarrow> nat \<times> mascot_state" where
  "setTimeout cb d s =
     (nextHandle s,
      s\<lparr>timers := timers s @ [\<lparr>handle = nextHandle s, due = now s + d, delay = d,
                                 repeating = False, action = cb\<rparr>],
        nextHandle := Suc (nextHandle s)\<rparr>)"

definition setInterval :: "callback \<Rightarrow> nat \<Rightarrow> mascot_state \<Rightarrow> nat \<times> mascot_state" where
  "setInterval cb d s =
     (nextHandle s,
      s\<lparr>timers := timers s @ [\<lparr>handle = nextHandle s, due = now s + d, delay = d,
                                 repeating = True, action = cb\<rparr>],
        nextHandle := Suc (nextHandle s)\<rparr>)"

text \<open>\<open>clearTimeout(null)\<close> and \<open>clearTimeout\<close> of a handle that is not pending do nothing.\<close>

definition clearTimeout :: "nat option \<Rightarrow> mascot_state \<Rightarrow> mascot_state" where
  "clearTimeout h s =
     (case h of None \<Rightarrow> s
      | Some i \<Rightarrow> s\<lparr>timers := filter (\<lambda>t. handle t \<noteq> i) (timers s)\<rparr>)"

definition changeMascotExpression :: "expression \<Rightarrow> string \<Rightarrow> mascot_state \<Rightarrow> mascot_state" where
  "changeMascotExpression expression message s =
     (if isLocked s then s
      else
        let s1 = (if expression \<noteq> currentExpression s
                  then snd (setTimeout (FadeSwap expression) 150 (s\<lparr>opacity := ''0.5''\<rparr>))
                  else s)
        in if message \<noteq> [] then s1\<lparr>textContent := message\<rparr> else s1)"

definition resetMascot :: "mascot_state \<Rightarrow> mascot_state" where
  "resetMascot s =
     (if isLocked s then s else changeMascotExpression standing defaultMessage s)"

definition atsMessage :: string where
  "atsMessage = ''Oh no... your ATS score is low. Let'' @ [CHR 0x27] @ ''s improve it! ''
                 @ [CHR 0xF0, CHR 0x9F, CHR 0x98, CHR 0xA2]"

definition jobMatchMessage :: string where
  "jobMatchMessage = ''Hmm... you'' @ [CHR 0x27] @ ''re missing many required skills... ''
                      @ [CHR 0xF0, CHR 0x9F, CHR 0x98, CHR 0x94]"

definition grammarMessage :: string where
  "grammarMessage = ''Let'' @ [CHR 0x27] @ ''s fix these grammar issues together! ''
                     @ [CHR 0xF0, CHR 0x9F, CHR 0x93, CHR 0x9D]"

definition missingSkillsMessage :: string where
  "missingSkillsMessage = ''You need to add these skills to match better... ''
                           @ [CHR 0xF0, CHR 0x9F, CHR 0xA4, CHR 0x94]"

definition goodScoresMessage :: string where
  "goodScoresMessage = ''Great job! Your scores look amazing! ''
                        @ [CHR 0xF0, CHR 0x9F, CHR 0x8E, CHR 0x89]"

text \<open>
  The first half of \<open>checkScores\<close>: the values of \<open>lowScore\<close> and \<open>sadMessage\<close> when the
  four tests have run, from the text of the three score elements (\<open>None\<close>: the element is
  absent) and the number of children of the \<open>.missing-skills\<close> element (\<open>None\<close>: absent).
\<close>

definition scoreVerdict ::
  "jsstring option \<Rightarrow> jsstring option \<Rightarrow> jsstring option \<Rightarrow> nat option \<Rightarrow> bool \<times> string" where
  "scoreVerdict atsScore jobMatchScore grammarScore missingSkillsList =
     (let v0 = (False, []);
          v1 = (case atsScore of None \<Rightarrow> v0
                | Some t \<Rightarrow> if scoreBelow t 60 then (True, atsMessage) else v0);
          v2 = (case jobMatchScore of None \<Rightarrow> v1
                | Some t \<Rightarrow> if \<not> fst v1 \<and> scoreBelow t 50 then (True, jobMatchMessage) else v1);
          v3 = (case grammarScore of None \<Rightarrow> v2
                | Some t \<Rightarrow> if \<not> fst v2 \<and> scoreBelow t 70 then (True, grammarMessage) else v2)
      in case missingSkillsList of None \<Rightarrow> v3
         | Some n \<Rightarrow> if \<not> fst v3 \<and> 5 < n then (True, missingSkillsMessage) else v3)"

text \<open>\<open>document.querySelector('.missing-skills')\<close> and its \<open>children.length\<close>.\<close>

definition missingSkillsCount :: "element list \<Rightarrow> nat option" where
  "missingSkillsCount es =
     map_option (\<lambda>e. childCount (node e)) (find (matches (Class ''missing-skills'')) es)"

definition checkScores :: "mascot_state \<Rightarrow> mascot_state" where
  "checkScores s =
     (let atsScore = atsScoreText (page s);
          jobMatchScore = jobMatchScoreText (page s);
          (lowScore, sadMessage) =
             scoreVerdict atsScore jobMatchScore (grammarScoreText (page s))
               (missingSkillsCount (elements s))
      in if lowScore then
           snd (setTimeout Unlock 5000
                  ((changeMascotExpression sad sadMessage (s\<lparr>isLocked := True\<rparr>))
                     \<lparr>color := ''#dc2626''\<rparr>))
         else if atsScore \<noteq> None \<or> jobMatchScore \<noteq> None then
           snd (setTimeout ResetMascot 3000 (changeMascotExpression happy goodScoresMessage s))
         else s)"

text \<open>
  The body of the inner \<open>forEach\<close> of \<open>setupHoverDetection\<close> for one element of the
  selector's matches: skip a marked element, else mark it and add the listener pair.
\<close>

definition bindElement :: "selector \<Rightarrow> element \<Rightarrow> element" where
  "bindElement sel e =
     (if matches sel e \<and> \<not> marked e
      then e\<lparr>marked := True, listeners := listeners e @ [sel]\<rparr> else e)"

definition scanSelector :: "element list \<Rightarrow> selector \<Rightarrow> element list" where
  "scanSelector es sel = map (bindElement sel) es"

definition setupHoverDetection :: "mascot_state \<Rightarrow> mascot_state" where
  "setupHoverDetection s =
     s\<lparr>elements := foldl scanSelector (elements s) (map fst expressionMap)\<rparr>"

text \<open>The two listeners added for a selector.\<close>

definition onMouseEnter :: "selector \<Rightarrow> mascot_state \<Rightarrow> mascot_state" where
  "onMouseEnter sel s =
     (let s1 = clearTimeout (hoverTimeout s) s
      in case map_of expressionMap sel of None \<Rightarrow> s1
         | Some (expression, message) \<Rightarrow> changeMascotExpression expression message s1)"

definition onMouseLeave :: "selector \<Rightarrow> mascot_state \<Rightarrow> mascot_state" where
  "onMouseLeave sel s =
     (let (h, s1) = setTimeout ResetMascot 300 (clearTimeout (hoverTimeout s) s)
      in s1\<lparr>hoverTimeout := Some h\<rparr>)"

definition init :: "mascot_state \<Rightarrow> mascot_state" where
  "init s = snd (setTimeout Startup 500
                   (s\<lparr>transition := ''opacity 0.2s ease'', textContent := defaultMessage\<rparr>))"

text \<open>
  The script as a whole, run on the served document at time 0: nothing happens when the
  image or the caption is missing (\<open>None\<close>); otherwise the closure's variables get their
  initial values, \<open>init\<close> runs and the 3-second interval is set.
\<close>

definition initialState :: "string \<Rightarrow> string \<Rightarrow> document \<Rightarrow> mascot_state" where
  "initialState url caption d =
     \<lparr>page = d, elements = map loadElement (nodes d), basePath = basePathOf url, src = url,
      opacity = [], transition = [], textContent = caption, color = [],
      currentExpression = standing, isLocked = False, hoverTimeout = None, timers = [],
      nextHandle = 1, now = 0\<rparr>"

definition boot :: "string \<Rightarrow> string \<Rightarrow> document \<Rightarrow> mascot_state" where
  "boot url caption d = snd (setInterval Rescan 3000 (init (initialState url caption d)))"

definition mascotScript :: "document \<Rightarrow> mascot_state option" where
  "mascotScript d =
     (case (mascot d, bubble d) of
        (Some url, Some caption) \<Rightarrow> Some (boot url caption d)
      | _ \<Rightarrow> None)"

subsection \<open>The event loop\<close>

definition runCallback :: "callback \<Rightarrow> mascot_state \<Rightarrow> mascot_state" where
  "runCallback cb s =
     (case cb of
        FadeSwap e \<Rightarrow> s\<lparr>src := expressions (basePath s) e, currentExpression := e,
                         opacity := ''1''\<rparr>
      | ResetMascot \<Rightarrow> resetMascot s
      | Unlock \<Rightarrow> s\<lparr>isLocked := False, color := []\<rparr>
      | Startup \<Rightarrow> setupHoverDetection (checkScores s)
      | Rescan \<Rightarrow> setupHoverDetection s)"

text \<open>
  The pending timer with a given handle fires: a timeout leaves the table, an interval is
  armed again; then the callback runs. A handle that is no longer pending does nothing.
\<close>

definition fire :: "nat \<Rightarrow> mascot_state \<Rightarrow> mascot_state" where
  "fire h s =
     (case find (\<lambda>t. handle t = h) (timers s) of
        None \<Rightarrow> s
      | Some t \<Rightarrow>
          let rest = filter (\<lambda>u. handle u \<noteq> h) (timers s);
              table = (if repeating t then rest @ [t\<lparr>due := now s + delay t\<rparr>] else rest)
          in runCallback (action t) (s\<lparr>timers := table\<rparr>))"

text \<open>
  One millisecond passes and the timers that are due then fire, in the order of the table;
  one that an earlier callback of the same millisecond cleared does not fire.
\<close>

definition tick :: "mascot_state \<Rightarrow> mascot_state" where
  "tick s =
     (let s1 = s\<lparr>now := Suc (now s)\<rparr>
      in foldl (\<lambda>acc h. fire h acc) s1
           (map handle (filter (\<lambda>t. due t \<le> now s1) (timers s1))))"

text \<open>
  What can happen to the page: the pointer enters or leaves the element at a position of
  the document, or time passes. A mouse event runs the element's listeners of that kind.
\<close>

datatype event = MouseEnter nat | MouseLeave nat | Elapse nat

fun step :: "mascot_state \<Rightarrow> event \<Rightarrow> mascot_state" where
  "step s (MouseEnter i) =
     (if i < length (elements s)
      then foldl (\<lambda>acc sel. onMouseEnter sel acc) s (listeners (elements s ! i)) else s)"
| "step s (MouseLeave i) =
     (if i < length (elements s)
      then foldl (\<lambda>acc sel. onMouseLeave sel acc) s (listeners (elements s ! i)) else s)"
| "step s (Elapse n) = (tick ^^ n) s"

definition run :: "mascot_state \<Rightarrow> event list \<Rightarrow> mascot_state" where
  "run s evs = foldl step s evs"


section \<open>Theme manager (the theme switcher script)\<close>

record theme =
  name :: string
  icon :: string
  primary :: string
  secondary :: string

text \<open>The catalog \<open>themes\<close>, in the order of its keys.\<close>

definition themes :: "(string \<times> theme) list" where
  "themes =
   [(''dark-purple'', \<lparr>name = ''Dark Purple'', icon = [CHR 0xF0, CHR 0x9F, CHR 0x9F, CHR 0xA3],
                       primary = ''#6366f1'', secondary = ''#8b5cf6''\<rparr>),
    (''ocean'', \<lparr>name = ''Ocean Blue'', icon = [CHR 0xF0, CHR 0x9F, CHR 0x94, CHR 0xB5],
                 primary = ''#06b6d4'', secondary = ''#14b8a6''\<rparr>),
    (''sunset'', \<lparr>name = ''Sunset Orange'', icon = [CHR 0xF0, CHR 0x9F, CHR 0x9F, CHR 0xA0],
                  primary = ''#f97316'', secondary = ''#ec4899''\<rparr>),
    (''forest'', \<lparr>name = ''Forest Green'', icon = [CHR 0xF0, CHR 0x9F, CHR 0x9F, CHR 0xA2],
                  primary = ''#10b981'', secondary = ''#059669''\<rparr>),
    (''cyberpunk'', \<lparr>name = ''Cyberpunk'', icon = [CHR 0xF0, CHR 0x9F, CHR 0x92, CHR 0x97],
                     primary = ''#ec4899'', secondary = ''#06b6d4''\<rparr>)]"

text \<open>
  An element of class \<open>theme-option\<close>: its \<open>dataset.theme\<close> (\<open>None\<close>: no such attribute),
  whether its class list holds \<open>active\<close>, and the theme key its click listener closes over
  (\<open>None\<close>: the element has no such listener).
\<close>

record theme_option =
  dataTheme :: "string option"
  active :: bool
  clickTheme :: "string option"

text \<open>
  What the theme script reads and writes: the \<open>data-theme\<close> attribute of the document
  root, the item \<open>theme\<close> of \<open>localStorage\<close>, the \<open>.theme-option\<close> elements, the
  \<open>#theme-selector\<close> element (\<open>None\<close>: absent; else whether its class list holds \<open>show\<close>),
  the \<open>#theme-transition-overlay\<close> element (\<open>None\<close>: absent; else whether its class list
  holds \<open>active\<close>) and the number of pending 300ms callbacks that will clear it.
\<close>

record theme_page =
  rootTheme :: "string option"
  storedTheme :: "string option"
  themeOptions :: "theme_option list"
  themeSelector :: "bool option"
  overlay :: "bool option"
  overlayTimers :: nat

text \<open>\<open>localStorage.getItem('theme') || 'dark-purple'\<close>: \<open>null\<close> and the empty string are falsy.\<close>

definition getSavedTheme :: "theme_page \<Rightarrow> string" where
  "getSavedTheme p =
     (case storedTheme p of None \<Rightarrow> ''dark-purple''
      | Some t \<Rightarrow> if t = [] then ''dark-purple'' else t)"

definition applyTheme :: "string \<Rightarrow> theme_page \<Rightarrow> theme_page" where
  "applyTheme themeName p =
     (let p1 = p\<lparr>rootTheme := Some themeName, storedTheme := Some themeName\<rparr>;
          p2 = p1\<lparr>themeOptions :=
                    map (\<lambda>option.
                           let cleared = option\<lparr>active := False\<rparr>
                           in if dataTheme cleared = Some themeName
                              then cleared\<lparr>active := True\<rparr> else cleared)
                        (themeOptions p1)\<rparr>
      in case overlay p2 of None \<Rightarrow> p2
         | Some _ \<Rightarrow> p2\<lparr>overlay := Some True, overlayTimers := Suc (overlayTimers p2)\<rparr>)"

datatype js_error = TypeError

text \<open>\<open>selector.classList\<close> throws when \<open>getElementById\<close> found nothing.\<close>

definition toggleThemeSelector :: "theme_page \<Rightarrow> js_error + theme_page" where
  "toggleThemeSelector p =
     (case themeSelector p of None \<Rightarrow> Inl TypeError
      | Some shown \<Rightarrow> Inr (p\<lparr>themeSelector := Some (\<not> shown)\<rparr>))"

text \<open>
  The part of the \<open>DOMContentLoaded\<close> handler that concerns the theme: apply the saved
  theme, then append one option per catalog key to the selector, if there is one. The
  markup inside an option (swatches, icon and name) is left out.
\<close>

definition createOption :: "string \<Rightarrow> theme_page \<Rightarrow> string \<Rightarrow> theme_page" where
  "createOption savedTheme p themeKey =
     p\<lparr>themeOptions := themeOptions p @
          [\<lparr>dataTheme = Some themeKey, active = (themeKey = savedTheme),
            clickTheme = Some themeKey\<rparr>]\<rparr>"

definition onDOMContentLoaded :: "theme_page \<Rightarrow> theme_page" where
  "onDOMContentLoaded p =
     (let savedTheme = getSavedTheme p;
          p1 = applyTheme savedTheme p
      in case themeSelector p1 of None \<Rightarrow> p1
         | Some _ \<Rightarrow> foldl (createOption savedTheme) p1 (map fst themes))"

text \<open>
  A click on the option at a position: its listener applies the theme and toggles the
  selector; when the toggle throws, what \<open>applyTheme\<close> did stays.
\<close>

definition clickOption :: "nat \<Rightarrow> theme_page \<Rightarrow> theme_page" where
  "clickOption i p =
     (if i < length (themeOptions p) then
        (case clickTheme (themeOptions p ! i) of None \<Rightarrow> p
         | Some themeKey \<Rightarrow>
             (case toggleThemeSelector (applyTheme themeKey p) of
                Inl _ \<Rightarrow> applyTheme themeKey p | Inr q \<Rightarrow> q))
      else p)"

text \<open>
  A reload: the document is served anew and only \<open>localStorage\<close> is carried over; then
  the handler runs.
\<close>

definition reload :: "theme_page \<Rightarrow> theme_page \<Rightarrow> theme_page" where
  "reload served p = onDOMContentLoaded (served\<lparr>storedTheme := storedTheme p\<rparr>)"


text \<open>
  What can happen to the theme after the page has loaded: some script calls
  \<open>applyTheme\<close> with a string, or the option at a position is clicked.
\<close>

datatype theme_event = Apply string | Click nat

fun themeStep :: "theme_page \<Rightarrow> theme_event \<Rightarrow> theme_page" where
  "themeStep p (Apply themeName) = applyTheme themeName p"
| "themeStep p (Click i) = clickOption i p"

definition themeRun :: "theme_page \<Rightarrow> theme_event list \<Rightarrow> theme_page" where
  "themeRun p evs = foldl themeStep p evs"

section \<open>Definitions used by the statements\<close>

text \<open>
  The score rules in the specification's words: an ordered list of (predicate, outcome)
  rules, evaluated first-match-wins. A rule on a score holds when the element is present
  and its number is below the bound.
\<close>

fun firstMatch :: "(bool \<times> 'a) list \<Rightarrow> 'a option" where
  "firstMatch [] = None"
| "firstMatch ((holds, outcome) # rules) = (if holds then Some outcome else firstMatch rules)"

definition presentBelow :: "jsstring option \<Rightarrow> int \<Rightarrow> bool" where
  "presentBelow score bound = (case score of None \<Rightarrow> False | Some t \<Rightarrow> scoreBelow t bound)"

definition countAbove :: "nat option \<Rightarrow> nat \<Rightarrow> bool" where
  "countAbove count bound = (case count of None \<Rightarrow> False | Some n \<Rightarrow> bound < n)"

definition scoreRules ::
  "jsstring option \<Rightarrow> jsstring option \<Rightarrow> jsstring option \<Rightarrow> nat option
     \<Rightarrow> (bool \<times> string) list" where
  "scoreRules ats job grammar missing =
     [(presentBelow ats 60, atsMessage),
      (presentBelow job 50, jobMatchMessage),
      (presentBelow grammar 70, grammarMessage),
      (countAbove missing 5, missingSkillsMessage)]"

text \<open>
  What a whole scan does to one element: a marked element is left alone, an unmarked one
  is bound under the first selector of the list that it matches.
\<close>

definition bindFirst :: "selector list \<Rightarrow> element \<Rightarrow> element" where
  "bindFirst sels e =
     (if marked e then e
      else case find (\<lambda>sel. matches sel e) sels of None \<Rightarrow> e
           | Some sel \<Rightarrow> e\<lparr>marked := True, listeners := listeners e @ [sel]\<rparr>)"

text \<open>
  An element is bound at most once: it carries no listener pair unless it is marked, and
  never more than one.
\<close>

definition boundOnce :: "element \<Rightarrow> bool" where
  "boundOnce e \<longleftrightarrow> (marked e \<or> listeners e = []) \<and> length (listeners e) \<le> 1"

text \<open>The \<open>else if\<close> branch of \<open>checkScores\<close>: the happy reaction and its 3-second reset.\<close>

definition goodScoresBranch :: "mascot_state \<Rightarrow> mascot_state" where
  "goodScoresBranch s =
     snd (setTimeout ResetMascot 3000 (changeMascotExpression happy goodScoresMessage s))"

text \<open>
  A page to run the script on: the mascot, an empty caption, an ATS score with the given
  text, and one submit button of class \<open>btn-primary\<close>.
\<close>

definition exampleButton :: node where
  "exampleButton = \<lparr>tagName = ''button'', typeAttr = Some ''submit'',
                     classList = [''btn-primary''], childCount = 0, markerAttr = False\<rparr>"

definition examplePage :: "string \<Rightarrow> document" where
  "examplePage ats =
     \<lparr>mascot = Some ''/static/images/fox_standing.png'', bubble = Some [],
      atsScoreText = Some (code_units ats), jobMatchScoreText = None, grammarScoreText = None,
      nodes = [exampleButton]\<rparr>"

definition exampleBoot :: "string \<Rightarrow> mascot_state" where
  "exampleBoot ats = boot ''/static/images/fox_standing.png'' [] (examplePage ats)"

text \<open>
  The picker entry that the load handler creates for a catalog key when \<open>current\<close> is the
  theme in force, and the state in which root attribute, storage and picker agree on it.
\<close>

definition pickerEntry :: "string \<Rightarrow> string \<Rightarrow> theme_option" where
  "pickerEntry current themeKey =
     \<lparr>dataTheme = Some themeKey, active = (themeKey = current), clickTheme = Some themeKey\<rparr>"

definition pickerShows :: "string \<Rightarrow> theme_page \<Rightarrow> bool" where
  "pickerShows current p \<longleftrightarrow>
     rootTheme p = Some current \<and> storedTheme p = Some current \<and>
     themeOptions p = map (pickerEntry current) (map fst themes)"

text \<open>
  A served page with the selector, the overlay and no option in its markup, nothing
  stored yet.
\<close>

definition exampleThemePage :: theme_page where
  "exampleThemePage =
     \<lparr>rootTheme = None, storedTheme = None, themeOptions = [], themeSelector = Some False,
      overlay = Some False, overlayTimers = 0\<rparr>"

text \<open>
  The verdict of the score rules on the served document, and the pages on which the score
  check takes its \<open>else if\<close> branch.
\<close>

definition lowScorePage :: "document \<Rightarrow> bool" where
  "lowScorePage d \<longleftrightarrow>
     fst (scoreVerdict (atsScoreText d) (jobMatchScoreText d) (grammarScoreText d)
            (missingSkillsCount (map loadElement (nodes d))))"

definition goodScoresPage :: "document \<Rightarrow> bool" where
  "goodScoresPage d \<longleftrightarrow>
     \<not> lowScorePage d \<and> (atsScoreText d \<noteq> None \<or> jobMatchScoreText d \<noteq> None)"

text \<open>The live elements of a document after a scan.\<close>

definition scanned :: "document \<Rightarrow> element list" where
  "scanned d = map (bindFirst (map fst expressionMap)) (map loadElement (nodes d))"

text \<open>A page whose only score element is the grammar score, with the passing text 80.\<close>

definition grammarOnlyPage :: document where
  "grammarOnlyPage =
     \<lparr>mascot = Some ''/static/images/fox_standing.png'', bubble = Some [],
      atsScoreText = None, jobMatchScoreText = None,
      grammarScoreText = Some (code_units ''80''), nodes = [exampleButton]\<rparr>"


text \<open>
  The three stretches of time on a page with a low score. Before the score check the state
  is the initial one but for the clock. While the lock is held the expression and the
  caption are the initial ones, the caption has the alert colour, and the timer that will
  unlock is pending (it is the third timer the script sets); every other pending timer is a
  reset or the rescan. After the unlock the lock is off, the colour is cleared, and nothing
  pending can lock again.
\<close>

definition unlockTimer :: timer where
  "unlockTimer = \<lparr>handle = 3, due = 5500, delay = 5000, repeating = False, action = Unlock\<rparr>"

definition lockedPhase :: "mascot_state \<Rightarrow> bool" where
  "lockedPhase s \<longleftrightarrow>
     isLocked s \<and> currentExpression s = standing \<and> textContent s = defaultMessage \<and>
     color s = ''#dc2626'' \<and> unlockTimer \<in> set (timers s) \<and>
     (\<forall>t \<in> set (timers s).
        t = unlockTimer \<or> (handle t \<noteq> 3 \<and> (action t = ResetMascot \<or> action t = Rescan))) \<and>
     3 < nextHandle s \<and> hoverTimeout s \<noteq> Some 3"

definition unlockedPhase :: "mascot_state \<Rightarrow> bool" where
  "unlockedPhase s \<longleftrightarrow>
     \<not> isLocked s \<and> color s = [] \<and>
     (\<forall>t \<in> set (timers s). action t \<noteq> Unlock \<and> action t \<noteq> Startup)"

definition lockTimeline :: "string \<Rightarrow> string \<Rightarrow> document \<Rightarrow> mascot_state \<Rightarrow> bool" where
  "lockTimeline url caption d s \<longleftrightarrow>
     (if now s < 500 then s = (boot url caption d)\<lparr>now := now s\<rparr>
      else if now s < 5500 then lockedPhase s
      else unlockedPhase s)"

text \<open>
  The pending timers that will run \<open>resetMascot\<close>: all of them, the one whose handle is in
  \<open>hoverTimeout\<close>, and the others; and the pending timers of the startup delay.
\<close>

definition resetTimers :: "mascot_state \<Rightarrow> timer list" where
  "resetTimers s = filter (\<lambda>t. action t = ResetMascot) (timers s)"

definition trackedResets :: "mascot_state \<Rightarrow> timer list" where
  "trackedResets s =
     filter (\<lambda>t. action t = ResetMascot \<and> hoverTimeout s = Some (handle t)) (timers s)"

definition untrackedResets :: "mascot_state \<Rightarrow> timer list" where
  "untrackedResets s =
     filter (\<lambda>t. action t = ResetMascot \<and> hoverTimeout s \<noteq> Some (handle t)) (timers s)"

definition startupPending :: "mascot_state \<Rightarrow> timer list" where
  "startupPending s = filter (\<lambda>t. action t = Startup) (timers s)"

text \<open>
  The timer table is well formed: handles are distinct and were all given out already, only
  the rescan repeats, and \<open>hoverTimeout\<close> holds a handle that was given out. The invariant of
  the reset timers: besides, the state belongs to the document, the score check is still to
  come or has left at most one reset outside \<open>hoverTimeout\<close>, such a reset has the delay of
  the score check, and there is none unless the page has good scores.
\<close>

definition timersWellFormed :: "mascot_state \<Rightarrow> bool" where
  "timersWellFormed s \<longleftrightarrow>
     distinct (map handle (timers s)) \<and>
     (\<forall>t \<in> set (timers s). handle t < nextHandle s \<and> (repeating t \<longrightarrow> action t = Rescan)) \<and>
     (\<forall>h. hoverTimeout s = Some h \<longrightarrow> h < nextHandle s)"

definition resetInvariant :: "document \<Rightarrow> mascot_state \<Rightarrow> bool" where
  "resetInvariant d s \<longleftrightarrow>
     timersWellFormed s \<and> page s = d \<and> map node (elements s) = nodes d \<and>
     length (startupPending s) + length (untrackedResets s) \<le> 1 \<and>
     (\<forall>t \<in> set (untrackedResets s). delay t = 3000) \<and>
     (\<not> goodScoresPage d \<longrightarrow> untrackedResets s = [])"

text \<open>The timer that \<open>changeMascotExpression\<close> sets for the fade.\<close>

definition fadeTimer :: "expression \<Rightarrow> mascot_state \<Rightarrow> timer" where
  "fadeTimer e s = \<lparr>handle = nextHandle s, due = now s + 150, delay = 150, repeating = False,
                     action = FadeSwap e\<rparr>"

section \<open>Verification\<close>

subsection \<open>Score rules\<close>

text \<open>
  C3. For every combination of present or absent score elements, with any texts, and any
  count of missing-skill entries (or no such list), the flag and the message that
  \<open>checkScores\<close> computes are those of the first rule that holds in the order ATS below 60,
  job match below 50, grammar below 70, more than 5 missing skills; when no rule holds the
  flag is false and the message empty.
\<close>

theorem checkScores_first_match_wins:
  "scoreVerdict ats job grammar missing =
     (case firstMatch (scoreRules ats job grammar missing) of
        None \<Rightarrow> (False, []) | Some message \<Rightarrow> (True, message))"
  by (simp add: scoreVerdict_def scoreRules_def presentBelow_def countAbove_def Let_def
           split: option.split)


lemmas parse_defs = scoreBelow_def parseInt_def code_units_def stripSign_def stripPrefix_def
  isWhiteSpace_def digitValue_def

lemmas boot_defs = exampleBoot_def examplePage_def exampleButton_def boot_def init_def
  setInterval_def setTimeout_def initialState_def loadElement_def basePathOf_def

lemma parseInt_examples:
  "parseInt (code_units ''45'') = Some 45"
  "parseInt (code_units '' 85%'') = Some 85"
  "parseInt (code_units ''72.5'') = Some 72"
  "parseInt (code_units ''-3'') = Some (- 3)"
  "parseInt (code_units ''0x1F'') = Some 31"
  "parseInt (code_units ''score: 45'') = None"
  "parseInt [] = None"
  by (simp_all add: parse_defs)



lemma verdict_low_iff:
  "fst (scoreVerdict ats job grammar missing) \<longleftrightarrow>
     presentBelow ats 60 \<or> presentBelow job 50 \<or> presentBelow grammar 70 \<or> countAbove missing 5"
  by (simp add: scoreVerdict_def presentBelow_def countAbove_def Let_def split: option.split)

lemma checkScores_not_low:
  "\<not> fst (scoreVerdict (atsScoreText (page s)) (jobMatchScoreText (page s))
            (grammarScoreText (page s)) (missingSkillsCount (elements s))) \<Longrightarrow>
   checkScores s =
     (if atsScoreText (page s) \<noteq> None \<or> jobMatchScoreText (page s) \<noteq> None
      then goodScoresBranch s else s)"
proof -
  assume nl: "\<not> fst (scoreVerdict (atsScoreText (page s)) (jobMatchScoreText (page s))
            (grammarScoreText (page s)) (missingSkillsCount (elements s)))"
  obtain low msg where v: "scoreVerdict (atsScoreText (page s)) (jobMatchScoreText (page s))
            (grammarScoreText (page s)) (missingSkillsCount (elements s)) = (low, msg)"
    by (cases "scoreVerdict (atsScoreText (page s)) (jobMatchScoreText (page s))
            (grammarScoreText (page s)) (missingSkillsCount (elements s))")
  with nl have "\<not> low" by simp
  then show ?thesis
    unfolding checkScores_def goodScoresBranch_def Let_def v by simp
qed

lemma checkScores_low:
  "fst (scoreVerdict (atsScoreText (page s)) (jobMatchScoreText (page s))
            (grammarScoreText (page s)) (missingSkillsCount (elements s))) \<Longrightarrow>
   checkScores s = snd (setTimeout Unlock 5000 (s\<lparr>isLocked := True, color := ''#dc2626''\<rparr>))"
proof -
  assume lo: "fst (scoreVerdict (atsScoreText (page s)) (jobMatchScoreText (page s))
            (grammarScoreText (page s)) (missingSkillsCount (elements s)))"
  obtain low msg where v: "scoreVerdict (atsScoreText (page s)) (jobMatchScoreText (page s))
            (grammarScoreText (page s)) (missingSkillsCount (elements s)) = (low, msg)"
    by (cases "scoreVerdict (atsScoreText (page s)) (jobMatchScoreText (page s))
            (grammarScoreText (page s)) (missingSkillsCount (elements s))")
  with lo have "low" by simp
  then show ?thesis
    unfolding checkScores_def Let_def v by (simp add: changeMascotExpression_def)
qed

lemma missingSkillsCount_nodes:
  "map node es = map node es' \<Longrightarrow> missingSkillsCount es = missingSkillsCount es'"
proof (induction es arbitrary: es')
  case Nil
  then show ?case by simp
next
  case (Cons e es)
  then obtain e' es'' where es': "es' = e' # es''" by (cases es') auto
  with Cons.prems have n: "node e = node e'" and r: "map node es = map node es''" by simp_all
  from Cons.IH [OF r] have "missingSkillsCount es = missingSkillsCount es''" .
  with n es' show ?case by (simp add: missingSkillsCount_def)
qed

lemma checkScores_by_page:
  assumes "page s = d" and "map node (elements s) = nodes d"
  shows "checkScores s =
     (if lowScorePage d
      then snd (setTimeout Unlock 5000 (s\<lparr>isLocked := True, color := ''#dc2626''\<rparr>))
      else if goodScoresPage d then goodScoresBranch s else s)"
proof -
  have "map node (elements s) = map node (map loadElement (nodes d))"
    using assms(2) by (simp add: comp_def loadElement_def)
  then have m: "missingSkillsCount (elements s) = missingSkillsCount (map loadElement (nodes d))"
    by (rule missingSkillsCount_nodes)
  show ?thesis
  proof (cases "lowScorePage d")
    case True
    then have "fst (scoreVerdict (atsScoreText (page s)) (jobMatchScoreText (page s))
            (grammarScoreText (page s)) (missingSkillsCount (elements s)))"
      by (simp add: lowScorePage_def assms(1) m)
    from checkScores_low [OF this] True show ?thesis by simp
  next
    case False
    then have "\<not> fst (scoreVerdict (atsScoreText (page s)) (jobMatchScoreText (page s))
            (grammarScoreText (page s)) (missingSkillsCount (elements s)))"
      by (simp add: lowScorePage_def assms(1) m)
    from checkScores_not_low [OF this] False show ?thesis
      by (simp add: goodScoresPage_def assms(1))
  qed
qed




subsection \<open>Scans of the hover registry\<close>

lemma matches_bound [simp]:
  "matches sel (e\<lparr>marked := m, listeners := ls\<rparr>) = matches sel e"
  by (cases sel) simp_all

lemma bindElement_marked: "marked e \<Longrightarrow> bindElement sel e = e"
  by (simp add: bindElement_def)

lemma foldl_bindElement_marked:
  "marked e \<Longrightarrow> foldl (\<lambda>a sel. bindElement sel a) e sels = e"
  by (induction sels) (simp_all add: bindElement_marked)

lemma foldl_bindElement: "foldl (\<lambda>a sel. bindElement sel a) e sels = bindFirst sels e"
proof (induction sels arbitrary: e)
  case Nil
  show ?case by (simp add: bindFirst_def)
next
  case (Cons sel sels)
  show ?case
  proof (cases "matches sel e \<and> \<not> marked e")
    case True
    then have "bindElement sel e = e\<lparr>marked := True, listeners := listeners e @ [sel]\<rparr>"
      by (simp add: bindElement_def)
    with True show ?thesis
      by (simp add: foldl_bindElement_marked bindFirst_def)
  next
    case False
    then have "bindElement sel e = e" by (simp add: bindElement_def)
    with False Cons show ?thesis by (auto simp: bindFirst_def)
  qed
qed

lemma foldl_scanSelector:
  "foldl scanSelector es sels = map (\<lambda>e. foldl (\<lambda>a sel. bindElement sel a) e sels) es"
  by (induction sels arbitrary: es) (simp_all add: scanSelector_def comp_def)

lemma elements_setupHoverDetection:
  "elements (setupHoverDetection s) = map (bindFirst (map fst expressionMap)) (elements s)"
  by (simp add: setupHoverDetection_def foldl_scanSelector foldl_bindElement)

lemma bindFirst_idem: "bindFirst sels (bindFirst sels e) = bindFirst sels e"
  by (simp add: bindFirst_def split: option.splits)

lemma setupHoverDetection_twice:
  "setupHoverDetection (setupHoverDetection s) = setupHoverDetection s"
proof -
  have "elements (setupHoverDetection (setupHoverDetection s)) = elements (setupHoverDetection s)"
    by (simp add: elements_setupHoverDetection bindFirst_idem)
  then show ?thesis by (simp add: setupHoverDetection_def)
qed

lemma setupHoverDetection_many:
  "(setupHoverDetection ^^ Suc n) s = setupHoverDetection s"
  by (induction n) (simp_all add: setupHoverDetection_twice)

lemma boundOnce_loadElement: "boundOnce (loadElement n)"
  by (simp add: boundOnce_def loadElement_def)

lemma boundOnce_bindFirst: "boundOnce e \<Longrightarrow> boundOnce (bindFirst sels e)"
  by (auto simp: boundOnce_def bindFirst_def split: option.splits)

lemma length_listeners_bindFirst:
  "length (listeners (bindFirst sels e)) \<le> Suc (length (listeners e))"
  by (simp add: bindFirst_def split: option.splits)

subsection \<open>What the transition functions leave alone\<close>

lemma elements_changeMascotExpression [simp]:
  "elements (changeMascotExpression e m s) = elements s"
  by (simp add: changeMascotExpression_def setTimeout_def Let_def)

lemma elements_resetMascot [simp]: "elements (resetMascot s) = elements s"
  by (simp add: resetMascot_def)

lemma elements_checkScores [simp]: "elements (checkScores s) = elements s"
  by (simp add: checkScores_def setTimeout_def Let_def split: prod.splits)

lemma elements_clearTimeout [simp]: "elements (clearTimeout h s) = elements s"
  by (simp add: clearTimeout_def split: option.splits)

lemma elements_onMouseEnter [simp]: "elements (onMouseEnter sel s) = elements s"
  by (simp add: onMouseEnter_def Let_def split: option.splits prod.splits)

lemma elements_onMouseLeave [simp]: "elements (onMouseLeave sel s) = elements s"
  by (simp add: onMouseLeave_def setTimeout_def Let_def split: prod.splits)

lemma elements_foldl_onMouseEnter [simp]:
  "elements (foldl (\<lambda>acc sel. onMouseEnter sel acc) s sels) = elements s"
  by (induction sels arbitrary: s) simp_all

lemma elements_foldl_onMouseLeave [simp]:
  "elements (foldl (\<lambda>acc sel. onMouseLeave sel acc) s sels) = elements s"
  by (induction sels arbitrary: s) simp_all

lemma boundOnce_runCallback:
  "list_all boundOnce (elements s) \<Longrightarrow> list_all boundOnce (elements (runCallback cb s))"
  by (cases cb)
     (simp_all add: runCallback_def elements_setupHoverDetection list_all_iff boundOnce_bindFirst)

lemma boundOnce_fire:
  "list_all boundOnce (elements s) \<Longrightarrow> list_all boundOnce (elements (fire h s))"
  by (simp add: fire_def Let_def boundOnce_runCallback split: option.splits)

lemma boundOnce_foldl_fire:
  "list_all boundOnce (elements s) \<Longrightarrow>
   list_all boundOnce (elements (foldl (\<lambda>acc h. fire h acc) s hs))"
  by (induction hs arbitrary: s) (simp_all add: boundOnce_fire)

lemma boundOnce_tick:
  "list_all boundOnce (elements s) \<Longrightarrow> list_all boundOnce (elements (tick s))"
  by (simp add: tick_def Let_def boundOnce_foldl_fire)

lemma boundOnce_elapse:
  "list_all boundOnce (elements s) \<Longrightarrow> list_all boundOnce (elements ((tick ^^ n) s))"
  by (induction n) (simp_all add: boundOnce_tick)

lemma boundOnce_step:
  "list_all boundOnce (elements s) \<Longrightarrow> list_all boundOnce (elements (step s ev))"
  by (cases ev) (simp_all add: boundOnce_elapse)

lemma boundOnce_run:
  "list_all boundOnce (elements s) \<Longrightarrow> list_all boundOnce (elements (run s evs))"
  unfolding run_def by (induction evs arbitrary: s) (simp_all add: boundOnce_step)

lemma boundOnce_boot: "list_all boundOnce (elements (boot url caption d))"
  by (simp add: boot_def init_def setInterval_def setTimeout_def initialState_def
        list_all_iff boundOnce_loadElement)

subsection \<open>Passing time on a known state\<close>

lemma tick_idle:
  "list_all (\<lambda>t. Suc (now s) < due t) (timers s) \<Longrightarrow> tick s = s\<lparr>now := Suc (now s)\<rparr>"
proof -
  assume a: "list_all (\<lambda>t. Suc (now s) < due t) (timers s)"
  then have "filter (\<lambda>t. due t \<le> Suc (now s)) (timers s) = []"
    by (induction "timers s") (auto simp: list_all_iff filter_empty_conv)
  then show ?thesis by (simp add: tick_def Let_def)
qed

lemma elapse_idle:
  "list_all (\<lambda>t. now s + n < due t) (timers s) \<Longrightarrow> (tick ^^ n) s = s\<lparr>now := now s + n\<rparr>"
proof (induction n)
  case 0
  show ?case by simp
next
  case (Suc n)
  then have "list_all (\<lambda>t. now s + n < due t) (timers s)"
    by (auto simp: list_all_iff)
  with Suc.IH have eq: "(tick ^^ n) s = s\<lparr>now := now s + n\<rparr>" by simp
  have "list_all (\<lambda>t. Suc (now (s\<lparr>now := now s + n\<rparr>)) < due t) (timers (s\<lparr>now := now s + n\<rparr>))"
    using Suc.prems by (simp add: list_all_iff)
  then have "tick (s\<lparr>now := now s + n\<rparr>) = s\<lparr>now := now s + n\<rparr>\<lparr>now := Suc (now (s\<lparr>now := now s + n\<rparr>))\<rparr>"
    by (rule tick_idle)
  with eq show ?case by simp
qed

lemma elapse_add: "(tick ^^ (m + n)) s = (tick ^^ n) ((tick ^^ m) s)"
  using funpow_add [of n m tick] by (simp add: add.commute)

lemma elapse_Suc: "(tick ^^ Suc m) s = tick ((tick ^^ m) s)"
  by simp

lemma length_elements_setup [simp]:
  "length (elements (setupHoverDetection s)) = length (elements s)"
  by (simp add: elements_setupHoverDetection)

lemma length_elements_setups [simp]:
  "length (elements ((setupHoverDetection ^^ n) s)) = length (elements s)"
  by (induction n) simp_all

subsection \<open>Rebinding\<close>

text \<open>
  C6. Running \<open>setupHoverDetection\<close> again changes nothing, so any number of runs equals
  one run; however often it runs, an element gains at most one listener pair; and on every
  document, after any sequence of mouse events and passing time (the 3-second interval
  included), every element carries at most one listener pair.
\<close>

theorem rebinding_scan_idempotent:
  "setupHoverDetection (setupHoverDetection s) = setupHoverDetection s \<and>
   (setupHoverDetection ^^ Suc n) s = setupHoverDetection s \<and>
   (\<forall>i < length (elements s).
      length (listeners (elements ((setupHoverDetection ^^ n) s) ! i))
        \<le> Suc (length (listeners (elements s ! i)))) \<and>
   (\<forall>e \<in> set (elements (run (boot url caption d) evs)). length (listeners e) \<le> 1)"
proof -
  have a: "\<forall>i < length (elements s).
      length (listeners (elements ((setupHoverDetection ^^ n) s) ! i))
        \<le> Suc (length (listeners (elements s ! i)))"
  proof (cases n)
    case 0
    then show ?thesis by simp
  next
    case (Suc k)
    then have "(setupHoverDetection ^^ n) s = setupHoverDetection s"
      by (simp only: setupHoverDetection_many)
    then show ?thesis
      by (simp add: elements_setupHoverDetection length_listeners_bindFirst)
  qed
  have "list_all boundOnce (elements (run (boot url caption d) evs))"
    by (rule boundOnce_run [OF boundOnce_boot])
  then have b: "\<forall>e \<in> set (elements (run (boot url caption d) evs)). length (listeners e) \<le> 1"
    by (simp add: list_all_iff boundOnce_def)
  from a b setupHoverDetection_twice [of s] setupHoverDetection_many [of n s]
  show ?thesis by blast
qed

lemma ex_499: "(tick ^^ 499) (exampleBoot ats) = (exampleBoot ats)\<lparr>now := 499\<rparr>"
  using elapse_idle [of "exampleBoot ats" 499]
  by (simp add: boot_defs)

lemmas scan_defs = setupHoverDetection_def scanSelector_def bindElement_def expressionMap_def

lemma ex_elements_500:
  "elements (run (exampleBoot ''45'') [Elapse 500]) =
     [\<lparr>node = exampleButton, marked = True, listeners = [TagType ''button'' ''submit'']\<rparr>]"
proof -
  have "(tick ^^ 500) (exampleBoot ''45'') = tick ((exampleBoot ''45'')\<lparr>now := 499\<rparr>)"
    using elapse_Suc [of 499 "exampleBoot ''45''"] by (simp add: ex_499)
  then show ?thesis
    by (simp add: run_def tick_def fire_def runCallback_def Let_def boot_defs scan_defs)
qed

theorem rebinding_scan_idempotent_witness:
  "0 < length (elements (exampleBoot ''45'')) \<and>
   length (listeners (elements ((setupHoverDetection ^^ 2) (exampleBoot ''45'')) ! 0))
     \<le> Suc (length (listeners (elements (exampleBoot ''45'') ! 0))) \<and>
   \<lparr>node = exampleButton, marked = True, listeners = [TagType ''button'' ''submit'']\<rparr>
     \<in> set (elements (run (exampleBoot ''45'') [Elapse 500])) \<and>
   length (listeners
     \<lparr>node = exampleButton, marked = True, listeners = [TagType ''button'' ''submit'']\<rparr>) \<le> 1"
proof -
  have len: "0 < length (elements (exampleBoot ''45''))"
    by (simp add: boot_defs)
  note inst = rebinding_scan_idempotent [of "exampleBoot ''45''" 2
      "''/static/images/fox_standing.png''" "[]" "examplePage ''45''" "[Elapse 500]"]
  from inst len have
    "length (listeners (elements ((setupHoverDetection ^^ 2) (exampleBoot ''45'')) ! 0))
       \<le> Suc (length (listeners (elements (exampleBoot ''45'') ! 0)))"
    by blast
  with len show ?thesis by (simp add: ex_elements_500)
qed

lemma find_Some_set: "find P xs = Some x \<Longrightarrow> x \<in> set xs \<and> P x"
  by (induction xs) (auto split: if_splits)

lemma map_of_registry:
  "sel \<in> set (map fst expressionMap) \<Longrightarrow> \<exists>expression message. map_of expressionMap sel = Some (expression, message)"
  by (cases "map_of expressionMap sel") (auto simp: map_of_eq_None_iff)

text \<open>
  C9. An element that is not bound yet and whose first matching selector, in the order of
  the registry, is \<open>sel\<close> carries after one or more scans exactly one listener pair, the one
  of \<open>sel\<close>, whatever other selectors it matches; a mouseenter on it runs this one listener,
  which applies the expression and the message that the registry gives for \<open>sel\<close>.
\<close>

theorem multi_match_bound_under_first_selector:
  assumes "i < length (elements s)"
    and "\<not> marked (elements s ! i)"
    and "listeners (elements s ! i) = []"
    and "find (\<lambda>sel. matches sel (elements s ! i)) (map fst expressionMap) = Some sel"
  shows "listeners (elements ((setupHoverDetection ^^ Suc n) s) ! i) = [sel] \<and>
    step ((setupHoverDetection ^^ Suc n) s) (MouseEnter i)
      = onMouseEnter sel ((setupHoverDetection ^^ Suc n) s) \<and>
    (\<exists>expression message.
       map_of expressionMap sel = Some (expression, message) \<and>
       (\<forall>s'. onMouseEnter sel s'
              = changeMascotExpression expression message (clearTimeout (hoverTimeout s') s')))"
proof -
  let ?s = "(setupHoverDetection ^^ Suc n) s"
  have s: "?s = setupHoverDetection s" by (rule setupHoverDetection_many)
  have l: "listeners (elements ?s ! i) = [sel]"
    using assms by (simp only: s) (simp add: elements_setupHoverDetection bindFirst_def)
  have len: "i < length (elements ?s)" using assms(1) by (simp only: s length_elements_setup)
  have st: "step ?s (MouseEnter i) = onMouseEnter sel ?s"
    using l len by (simp only: step.simps) simp
  from find_Some_set [OF assms(4)] obtain expression message
    where m: "map_of expressionMap sel = Some (expression, message)"
    using map_of_registry by blast
  then have "\<forall>s'. onMouseEnter sel s'
              = changeMascotExpression expression message (clearTimeout (hoverTimeout s') s')"
    by (simp add: onMouseEnter_def Let_def)
  with l st m show ?thesis by blast
qed

theorem multi_match_bound_under_first_selector_witness:
  "0 < length (elements (exampleBoot ''45'')) \<and>
   \<not> marked (elements (exampleBoot ''45'') ! 0) \<and>
   listeners (elements (exampleBoot ''45'') ! 0) = [] \<and>
   find (\<lambda>sel. matches sel (elements (exampleBoot ''45'') ! 0)) (map fst expressionMap)
     = Some (TagType ''button'' ''submit'') \<and>
   matches (Class ''btn-primary'') (elements (exampleBoot ''45'') ! 0) \<and>
   listeners (elements ((setupHoverDetection ^^ Suc 1) (exampleBoot ''45'')) ! 0)
     = [TagType ''button'' ''submit'']"
proof -
  have a: "0 < length (elements (exampleBoot ''45''))"
    "\<not> marked (elements (exampleBoot ''45'') ! 0)"
    "listeners (elements (exampleBoot ''45'') ! 0) = []"
    "find (\<lambda>sel. matches sel (elements (exampleBoot ''45'') ! 0)) (map fst expressionMap)
       = Some (TagType ''button'' ''submit'')"
    "matches (Class ''btn-primary'') (elements (exampleBoot ''45'') ! 0)"
    by (simp_all add: boot_defs expressionMap_def)
  from multi_match_bound_under_first_selector [OF a(1-4), of 1] a show ?thesis by blast
qed

subsection \<open>Themes\<close>

lemma rootTheme_applyTheme [simp]: "rootTheme (applyTheme t p) = Some t"
  by (simp add: applyTheme_def Let_def split: option.splits)

lemma storedTheme_applyTheme [simp]: "storedTheme (applyTheme t p) = Some t"
  by (simp add: applyTheme_def Let_def split: option.splits)

lemma themeSelector_applyTheme [simp]: "themeSelector (applyTheme t p) = themeSelector p"
  by (simp add: applyTheme_def Let_def split: option.splits)

lemma themeOptions_applyTheme:
  "themeOptions (applyTheme t p) =
     map (\<lambda>option. option\<lparr>active := (dataTheme option = Some t)\<rparr>) (themeOptions p)"
  by (simp add: applyTheme_def Let_def split: option.splits)

lemma active_after_applyTheme:
  "filter active (themeOptions (applyTheme t p)) =
     map (\<lambda>option. option\<lparr>active := True\<rparr>)
       (filter (\<lambda>option. dataTheme option = Some t) (themeOptions p))"
  by (simp add: themeOptions_applyTheme filter_map comp_def)


lemma foldl_createOption:
  "foldl (createOption saved) p keys =
     p\<lparr>themeOptions := themeOptions p @ map (pickerEntry saved) keys\<rparr>"
  by (induction keys arbitrary: p) (simp_all add: createOption_def pickerEntry_def)

lemma themeOptions_onDOMContentLoaded:
  "themeSelector p \<noteq> None \<Longrightarrow>
   themeOptions (onDOMContentLoaded p) =
     themeOptions (applyTheme (getSavedTheme p) p) @ map (pickerEntry (getSavedTheme p)) (map fst themes)"
  by (auto simp: onDOMContentLoaded_def Let_def foldl_createOption split: option.splits)

lemma rootTheme_onDOMContentLoaded [simp]:
  "rootTheme (onDOMContentLoaded p) = Some (getSavedTheme p)"
  by (simp add: onDOMContentLoaded_def Let_def foldl_createOption split: option.splits)

lemma storedTheme_onDOMContentLoaded [simp]:
  "storedTheme (onDOMContentLoaded p) = Some (getSavedTheme p)"
  by (simp add: onDOMContentLoaded_def Let_def foldl_createOption split: option.splits)

lemma themeSelector_onDOMContentLoaded [simp]:
  "themeSelector (onDOMContentLoaded p) = themeSelector p"
  by (simp add: onDOMContentLoaded_def Let_def foldl_createOption split: option.splits)

lemma active_picker:
  "filter active (map (pickerEntry t) (map fst themes)) =
     (if t \<in> set (map fst themes) then [pickerEntry t t] else [])"
  by (simp add: themes_def pickerEntry_def)

lemma pickerShows_applyTheme: "pickerShows t p \<Longrightarrow> pickerShows u (applyTheme u p)"
  by (simp add: pickerShows_def themeOptions_applyTheme pickerEntry_def)

lemma pickerShows_toggle:
  "pickerShows t p \<Longrightarrow> toggleThemeSelector p = Inr q \<Longrightarrow> pickerShows t q"
  by (auto simp: pickerShows_def toggleThemeSelector_def split: option.splits)

lemma pickerShows_clickOption: "pickerShows t p \<Longrightarrow> \<exists>u. pickerShows u (clickOption i p)"
proof (cases "i < length (themeOptions p)")
  case False
  assume "pickerShows t p"
  with False show ?thesis by (auto simp: clickOption_def)
next
  case True
  assume a: "pickerShows t p"
  show ?thesis
  proof (cases "clickTheme (themeOptions p ! i)")
    case None
    with a True show ?thesis by (auto simp: clickOption_def)
  next
    case (Some k)
    have b: "pickerShows k (applyTheme k p)" using a by (rule pickerShows_applyTheme)
    show ?thesis
    proof (cases "toggleThemeSelector (applyTheme k p)")
      case (Inl e)
      with True Some b show ?thesis by (auto simp: clickOption_def)
    next
      case (Inr q)
      with pickerShows_toggle [OF b Inr] True Some show ?thesis by (auto simp: clickOption_def)
    qed
  qed
qed

lemma pickerShows_step: "pickerShows t p \<Longrightarrow> \<exists>u. pickerShows u (themeStep p ev)"
  by (cases ev) (auto intro: pickerShows_applyTheme pickerShows_clickOption)

lemma pickerShows_run: "pickerShows t p \<Longrightarrow> \<exists>u. pickerShows u (themeRun p evs)"
  unfolding themeRun_def
proof (induction evs arbitrary: t p)
  case Nil
  then show ?case by auto
next
  case (Cons ev evs)
  from pickerShows_step [OF Cons.prems] obtain u where "pickerShows u (themeStep p ev)" ..
  from Cons.IH [OF this] show ?case by simp
qed

lemma pickerShows_init:
  "themeSelector served \<noteq> None \<Longrightarrow> themeOptions served = [] \<Longrightarrow>
   pickerShows (getSavedTheme served) (onDOMContentLoaded served)"
  by (simp add: pickerShows_def themeOptions_onDOMContentLoaded themeOptions_applyTheme)

text \<open>
  C8, as the code has it. For every string, \<open>applyTheme\<close> sets the root attribute and the
  stored item to it; the entries it leaves active are those whose \<open>data-theme\<close> equals it.
  On a page served with the selector and without options of its own, after the load
  handler and any sequence of \<open>applyTheme\<close> calls and clicks, root attribute and storage hold
  the same theme, and the picker has exactly one active entry, that theme's, when it is a
  catalog key, and no active entry otherwise.
\<close>

theorem applyTheme_accepts_any_id:
  "rootTheme (applyTheme themeName p) = Some themeName \<and>
   storedTheme (applyTheme themeName p) = Some themeName \<and>
   length (filter active (themeOptions (applyTheme themeName p)))
     = length (filter (\<lambda>option. dataTheme option = Some themeName) (themeOptions p)) \<and>
   (themeSelector served \<noteq> None \<and> themeOptions served = [] \<longrightarrow>
      (\<exists>current.
         rootTheme (themeRun (onDOMContentLoaded served) evs) = Some current \<and>
         storedTheme (themeRun (onDOMContentLoaded served) evs) = Some current \<and>
         filter active (themeOptions (themeRun (onDOMContentLoaded served) evs))
           = (if current \<in> set (map fst themes) then [pickerEntry current current] else [])))"
proof -
  have a: "length (filter active (themeOptions (applyTheme themeName p)))
     = length (filter (\<lambda>option. dataTheme option = Some themeName) (themeOptions p))"
    by (simp add: active_after_applyTheme)
  have b: "themeSelector served \<noteq> None \<and> themeOptions served = [] \<longrightarrow>
      (\<exists>current.
         rootTheme (themeRun (onDOMContentLoaded served) evs) = Some current \<and>
         storedTheme (themeRun (onDOMContentLoaded served) evs) = Some current \<and>
         filter active (themeOptions (themeRun (onDOMContentLoaded served) evs))
           = (if current \<in> set (map fst themes) then [pickerEntry current current] else []))"
  proof
    assume "themeSelector served \<noteq> None \<and> themeOptions served = []"
    then have "pickerShows (getSavedTheme served) (onDOMContentLoaded served)"
      by (simp add: pickerShows_init)
    from pickerShows_run [OF this] obtain u
      where u: "pickerShows u (themeRun (onDOMContentLoaded served) evs)" ..
    have "filter active (themeOptions (themeRun (onDOMContentLoaded served) evs))
           = (if u \<in> set (map fst themes) then [pickerEntry u u] else [])"
      using u active_picker [of u] by (simp only: pickerShows_def)
    with u show "\<exists>current.
         rootTheme (themeRun (onDOMContentLoaded served) evs) = Some current \<and>
         storedTheme (themeRun (onDOMContentLoaded served) evs) = Some current \<and>
         filter active (themeOptions (themeRun (onDOMContentLoaded served) evs))
           = (if current \<in> set (map fst themes) then [pickerEntry current current] else [])"
      unfolding pickerShows_def by blast
  qed
  from a b show ?thesis by simp
qed

theorem applyTheme_accepts_any_id_witness:
  "themeSelector exampleThemePage \<noteq> None \<and> themeOptions exampleThemePage = [] \<and>
   storedTheme (themeRun (onDOMContentLoaded exampleThemePage) [Apply ''neon'', Click 1])
     = Some ''ocean'' \<and>
   filter active
     (themeOptions (themeRun (onDOMContentLoaded exampleThemePage) [Apply ''neon'', Click 1]))
     = [pickerEntry ''ocean'' ''ocean'']"
proof -
  have h: "themeSelector exampleThemePage \<noteq> None \<and> themeOptions exampleThemePage = []"
    by (simp add: exampleThemePage_def)
  have st: "storedTheme (themeRun (onDOMContentLoaded exampleThemePage) [Apply ''neon'', Click 1])
     = Some ''ocean''"
    using h
    by (simp add: themeRun_def clickOption_def themeOptions_applyTheme
          themeOptions_onDOMContentLoaded toggleThemeSelector_def themes_def pickerEntry_def
          exampleThemePage_def split: option.splits)
  from applyTheme_accepts_any_id [of "''neon''" exampleThemePage exampleThemePage
      "[Apply ''neon'', Click 1]"] h
  obtain current where
    c: "storedTheme (themeRun (onDOMContentLoaded exampleThemePage) [Apply ''neon'', Click 1])
          = Some current"
       "filter active
          (themeOptions (themeRun (onDOMContentLoaded exampleThemePage) [Apply ''neon'', Click 1]))
          = (if current \<in> set (map fst themes) then [pickerEntry current current] else [])"
    by blast
  from c(1) st have "current = ''ocean''" by simp
  with c(2) h st show ?thesis by (simp add: themes_def)
qed

text \<open>
  C8 as stated fails: after the load handler on the example page, \<open>applyTheme('neon')\<close>
  stores \<open>neon\<close> and sets it on the root, and no picker entry is active.
\<close>

theorem unknown_theme_marks_no_entry:
  "storedTheme (applyTheme ''neon'' (onDOMContentLoaded exampleThemePage)) = Some ''neon'' \<and>
   rootTheme (applyTheme ''neon'' (onDOMContentLoaded exampleThemePage)) = Some ''neon'' \<and>
   filter active (themeOptions (applyTheme ''neon'' (onDOMContentLoaded exampleThemePage))) = []"
  by (simp add: active_after_applyTheme themeOptions_onDOMContentLoaded exampleThemePage_def
        themeOptions_applyTheme themes_def pickerEntry_def)

text \<open>
  C7. After \<open>applyTheme('ocean')\<close> in any state, a reload of a page that has the selector
  and no option for \<open>ocean\<close> in its markup gives \<open>ocean\<close> as the saved theme, in storage and
  as the root attribute, and exactly one active picker entry, the one for \<open>ocean\<close>.
\<close>

theorem theme_round_trip:
  assumes "themeSelector served \<noteq> None"
    and "\<forall>option \<in> set (themeOptions served). dataTheme option \<noteq> Some ''ocean''"
  shows "getSavedTheme (reload served (applyTheme ''ocean'' p)) = ''ocean'' \<and>
    storedTheme (reload served (applyTheme ''ocean'' p)) = Some ''ocean'' \<and>
    rootTheme (reload served (applyTheme ''ocean'' p)) = Some ''ocean'' \<and>
    filter active (themeOptions (reload served (applyTheme ''ocean'' p)))
      = [\<lparr>dataTheme = Some ''ocean'', active = True, clickTheme = Some ''ocean''\<rparr>]"
proof -
  let ?served = "served\<lparr>storedTheme := storedTheme (applyTheme ''ocean'' p)\<rparr>"
  have saved: "getSavedTheme ?served = ''ocean''"
    by (simp add: getSavedTheme_def)
  have sel: "themeSelector ?served \<noteq> None" using assms(1) by simp
  have static: "filter active (themeOptions (applyTheme ''ocean'' ?served)) = []"
    using assms(2) by (simp add: active_after_applyTheme filter_empty_conv)
  have "filter active (themeOptions (onDOMContentLoaded ?served))
      = [\<lparr>dataTheme = Some ''ocean'', active = True, clickTheme = Some ''ocean''\<rparr>]"
    by (simp only: themeOptions_onDOMContentLoaded [OF sel] saved filter_append static)
       (simp add: themes_def pickerEntry_def)
  then show ?thesis
    by (simp add: reload_def saved getSavedTheme_def)
qed

theorem theme_round_trip_witness:
  "themeSelector
     (exampleThemePage\<lparr>themeOptions :=
        [\<lparr>dataTheme = Some ''sunset'', active = True, clickTheme = None\<rparr>]\<rparr>) \<noteq> None \<and>
   rootTheme (reload
     (exampleThemePage\<lparr>themeOptions :=
        [\<lparr>dataTheme = Some ''sunset'', active = True, clickTheme = None\<rparr>]\<rparr>)
     (applyTheme ''ocean'' exampleThemePage)) = Some ''ocean'' \<and>
   filter active (themeOptions (reload
     (exampleThemePage\<lparr>themeOptions :=
        [\<lparr>dataTheme = Some ''sunset'', active = True, clickTheme = None\<rparr>]\<rparr>)
     (applyTheme ''ocean'' exampleThemePage)))
     = [\<lparr>dataTheme = Some ''ocean'', active = True, clickTheme = Some ''ocean''\<rparr>]"
proof -
  let ?served = "exampleThemePage\<lparr>themeOptions :=
        [\<lparr>dataTheme = Some ''sunset'', active = True, clickTheme = None\<rparr>]\<rparr>"
  have a: "themeSelector ?served \<noteq> None" by (simp add: exampleThemePage_def)
  have b: "\<forall>option \<in> set (themeOptions ?served). dataTheme option \<noteq> Some ''ocean''"
    by simp
  from theme_round_trip [OF a b, of exampleThemePage] a show ?thesis by blast
qed

subsection \<open>The reaction to good scores\<close>

lemma elapse_to_next:
  "list_all (\<lambda>t. now s + n < due t) (timers s) \<Longrightarrow>
   (tick ^^ Suc n) s = tick (s\<lparr>now := now s + n\<rparr>)"
  by (simp add: elapse_idle)

lemma setupHoverDetection_eq:
  "setupHoverDetection s = s\<lparr>elements := map (bindFirst (map fst expressionMap)) (elements s)\<rparr>"
  using elements_setupHoverDetection [of s] by (simp add: setupHoverDetection_def)

lemma bindFirst_scanned [simp]:
  "map (bindFirst (map fst expressionMap)) (scanned d) = scanned d"
  by (simp add: scanned_def bindFirst_idem)

lemma mascotScript_runs:
  "mascot d = Some url \<Longrightarrow> bubble d = Some caption \<Longrightarrow>
   mascotScript d = Some (boot url caption d)"
  by (simp add: mascotScript_def)

lemma mascotScript_skipped:
  "mascot d = None \<or> bubble d = None \<Longrightarrow> mascotScript d = None"
  by (auto simp: mascotScript_def split: option.splits)

lemma boot_eq:
  "boot url caption d =
     \<lparr>page = d, elements = map loadElement (nodes d), basePath = basePathOf url, src = url,
      opacity = [], transition = ''opacity 0.2s ease'', textContent = defaultMessage,
      color = [], currentExpression = standing, isLocked = False, hoverTimeout = None,
      timers = [\<lparr>handle = 1, due = 500, delay = 500, repeating = False, action = Startup\<rparr>,
                \<lparr>handle = 2, due = 3000, delay = 3000, repeating = True, action = Rescan\<rparr>],
      nextHandle = 3, now = 0\<rparr>"
  by (simp add: boot_def init_def setInterval_def setTimeout_def initialState_def)

lemma goodScoresMessage_nonempty [simp]: "goodScoresMessage \<noteq> []"
  by (simp add: goodScoresMessage_def)

lemma defaultMessage_nonempty [simp]: "defaultMessage \<noteq> []"
  by (simp add: defaultMessage_def)

lemma good_500:
  assumes "goodScoresPage d"
  shows "(tick ^^ 500) (boot url caption d) =
     \<lparr>page = d, elements = scanned d, basePath = basePathOf url, src = url,
      opacity = ''0.5'', transition = ''opacity 0.2s ease'', textContent = goodScoresMessage,
      color = [], currentExpression = standing, isLocked = False, hoverTimeout = None,
      timers = [\<lparr>handle = 2, due = 3000, delay = 3000, repeating = True, action = Rescan\<rparr>,
                \<lparr>handle = 3, due = 650, delay = 150, repeating = False,
                  action = FadeSwap happy\<rparr>,
                \<lparr>handle = 4, due = 3500, delay = 3000, repeating = False,
                  action = ResetMascot\<rparr>],
      nextHandle = 5, now = 500\<rparr>"
proof -
  let ?s = "(boot url caption d)\<lparr>now := 500, timers :=
      [\<lparr>handle = 2, due = 3000, delay = 3000, repeating = True, action = Rescan\<rparr>]\<rparr>"
  have "\<not> fst (scoreVerdict (atsScoreText (page ?s)) (jobMatchScoreText (page ?s))
            (grammarScoreText (page ?s)) (missingSkillsCount (elements ?s)))"
    using assms by (simp add: goodScoresPage_def lowScorePage_def boot_eq)
  from checkScores_not_low [OF this] assms
  have c: "checkScores ?s = goodScoresBranch ?s"
    by (simp add: goodScoresPage_def boot_eq)
  have "(tick ^^ Suc 499) (boot url caption d) = tick ((boot url caption d)\<lparr>now := 499\<rparr>)"
    using elapse_to_next [of "boot url caption d" 499] by (simp add: boot_eq)
  also have "\<dots> = setupHoverDetection (checkScores ?s)"
    by (simp add: tick_def fire_def runCallback_def Let_def boot_eq)
  also have "\<dots> = setupHoverDetection (goodScoresBranch ?s)"
    by (simp only: c)
  finally show ?thesis
    by (simp add: setupHoverDetection_eq goodScoresBranch_def changeMascotExpression_def
          setTimeout_def Let_def boot_eq scanned_def)
qed


lemmas fire_defs = tick_def fire_def runCallback_def Let_def

lemma good_650:
  assumes "goodScoresPage d"
  shows "(tick ^^ 650) (boot url caption d) =
     \<lparr>page = d, elements = scanned d, basePath = basePathOf url,
      src = expressions (basePathOf url) happy,
      opacity = ''1'', transition = ''opacity 0.2s ease'', textContent = goodScoresMessage,
      color = [], currentExpression = happy, isLocked = False, hoverTimeout = None,
      timers = [\<lparr>handle = 2, due = 3000, delay = 3000, repeating = True, action = Rescan\<rparr>,
                \<lparr>handle = 4, due = 3500, delay = 3000, repeating = False,
                  action = ResetMascot\<rparr>],
      nextHandle = 5, now = 650\<rparr>"
proof -
  have "(tick ^^ (500 + Suc 149)) (boot url caption d)
      = (tick ^^ Suc 149) ((tick ^^ 500) (boot url caption d))"
    by (rule elapse_add)
  also have "\<dots> = tick (((tick ^^ 500) (boot url caption d))\<lparr>now := 649\<rparr>)"
    using elapse_to_next [of "(tick ^^ 500) (boot url caption d)" 149]
    by (simp add: good_500 [OF assms])
  finally show ?thesis
    by (simp add: good_500 [OF assms] fire_defs)
qed

lemma good_3000:
  assumes "goodScoresPage d"
  shows "(tick ^^ 3000) (boot url caption d) =
     \<lparr>page = d, elements = scanned d, basePath = basePathOf url,
      src = expressions (basePathOf url) happy,
      opacity = ''1'', transition = ''opacity 0.2s ease'', textContent = goodScoresMessage,
      color = [], currentExpression = happy, isLocked = False, hoverTimeout = None,
      timers = [\<lparr>handle = 4, due = 3500, delay = 3000, repeating = False,
                  action = ResetMascot\<rparr>,
                \<lparr>handle = 2, due = 6000, delay = 3000, repeating = True, action = Rescan\<rparr>],
      nextHandle = 5, now = 3000\<rparr>"
proof -
  have "(tick ^^ (650 + Suc 2349)) (boot url caption d)
      = (tick ^^ Suc 2349) ((tick ^^ 650) (boot url caption d))"
    by (rule elapse_add)
  also have "\<dots> = tick (((tick ^^ 650) (boot url caption d))\<lparr>now := 2999\<rparr>)"
    using elapse_to_next [of "(tick ^^ 650) (boot url caption d)" 2349]
    by (simp add: good_650 [OF assms])
  finally show ?thesis
    by (simp add: good_650 [OF assms] fire_defs setupHoverDetection_eq)
qed

lemma good_3500:
  assumes "goodScoresPage d"
  shows "(tick ^^ 3500) (boot url caption d) =
     \<lparr>page = d, elements = scanned d, basePath = basePathOf url,
      src = expressions (basePathOf url) happy,
      opacity = ''0.5'', transition = ''opacity 0.2s ease'', textContent = defaultMessage,
      color = [], currentExpression = happy, isLocked = False, hoverTimeout = None,
      timers = [\<lparr>handle = 2, due = 6000, delay = 3000, repeating = True, action = Rescan\<rparr>,
                \<lparr>handle = 5, due = 3650, delay = 150, repeating = False,
                  action = FadeSwap standing\<rparr>],
      nextHandle = 6, now = 3500\<rparr>"
proof -
  have "(tick ^^ (3000 + Suc 499)) (boot url caption d)
      = (tick ^^ Suc 499) ((tick ^^ 3000) (boot url caption d))"
    by (rule elapse_add)
  also have "\<dots> = tick (((tick ^^ 3000) (boot url caption d))\<lparr>now := 3499\<rparr>)"
    using elapse_to_next [of "(tick ^^ 3000) (boot url caption d)" 499]
    by (simp add: good_3000 [OF assms])
  finally show ?thesis
    by (simp add: good_3000 [OF assms] fire_defs resetMascot_def changeMascotExpression_def
          setTimeout_def)
qed

lemma good_3650:
  assumes "goodScoresPage d"
  shows "(tick ^^ 3650) (boot url caption d) =
     \<lparr>page = d, elements = scanned d, basePath = basePathOf url,
      src = expressions (basePathOf url) standing,
      opacity = ''1'', transition = ''opacity 0.2s ease'', textContent = defaultMessage,
      color = [], currentExpression = standing, isLocked = False, hoverTimeout = None,
      timers = [\<lparr>handle = 2, due = 6000, delay = 3000, repeating = True, action = Rescan\<rparr>],
      nextHandle = 6, now = 3650\<rparr>"
proof -
  have "(tick ^^ (3500 + Suc 149)) (boot url caption d)
      = (tick ^^ Suc 149) ((tick ^^ 3500) (boot url caption d))"
    by (rule elapse_add)
  also have "\<dots> = tick (((tick ^^ 3500) (boot url caption d))\<lparr>now := 3649\<rparr>)"
    using elapse_to_next [of "(tick ^^ 3500) (boot url caption d)" 149]
    by (simp add: good_3500 [OF assms])
  finally show ?thesis
    by (simp add: good_3500 [OF assms] fire_defs)
qed

lemma checkScores_no_score:
  "\<not> fst (scoreVerdict (atsScoreText (page s)) (jobMatchScoreText (page s))
            (grammarScoreText (page s)) (missingSkillsCount (elements s))) \<Longrightarrow>
   atsScoreText (page s) = None \<Longrightarrow> jobMatchScoreText (page s) = None \<Longrightarrow>
   checkScores s = s"
  by (simp add: checkScores_not_low)

text \<open>
  C4, as the code has it. On every document on which no score rule holds and the ATS or
  the job-match score element is present, the score check, run in a state of that
  document that is not locked, takes the congratulatory branch: the caption becomes the
  congratulatory message, a fade to the happy expression is pending unless that is already
  the expression, and the last timer set is a reset due 3 seconds later. With no hover in
  between: at the score check (500ms) the caption is the congratulatory message; 150ms
  later the expression and the image are the happy ones; 3 seconds after the check the
  caption is the default message again, and 150ms after that expression and image are the
  standing ones. When neither the ATS nor the job-match element is present and no rule
  holds, the score check changes nothing, whether or not a grammar score is present.
\<close>

theorem good_scores_reaction:
  assumes "goodScoresPage d"
  shows "(page s = d \<and> map node (elements s) = nodes d \<and> \<not> isLocked s \<longrightarrow>
       checkScores s = goodScoresBranch s \<and>
       textContent (checkScores s) = goodScoresMessage \<and>
       (currentExpression s \<noteq> happy \<longrightarrow> fadeTimer happy s \<in> set (timers (checkScores s))) \<and>
       last (timers (checkScores s))
         = \<lparr>handle = nextHandle (checkScores s) - 1, due = now s + 3000, delay = 3000,
            repeating = False, action = ResetMascot\<rparr>) \<and>
    textContent (run (boot url caption d) [Elapse 500]) = goodScoresMessage \<and>
    currentExpression (run (boot url caption d) [Elapse 650]) = happy \<and>
    src (run (boot url caption d) [Elapse 650]) = expressions (basePathOf url) happy \<and>
    textContent (run (boot url caption d) [Elapse 3500]) = defaultMessage \<and>
    currentExpression (run (boot url caption d) [Elapse 3650]) = standing \<and>
    src (run (boot url caption d) [Elapse 3650]) = expressions (basePathOf url) standing \<and>
    (\<not> fst (scoreVerdict (atsScoreText (page s')) (jobMatchScoreText (page s'))
              (grammarScoreText (page s')) (missingSkillsCount (elements s'))) \<and>
     atsScoreText (page s') = None \<and> jobMatchScoreText (page s') = None
     \<longrightarrow> checkScores s' = s')"
proof -
  have a: "page s = d \<and> map node (elements s) = nodes d \<and> \<not> isLocked s \<longrightarrow>
       checkScores s = goodScoresBranch s \<and>
       textContent (checkScores s) = goodScoresMessage \<and>
       (currentExpression s \<noteq> happy \<longrightarrow> fadeTimer happy s \<in> set (timers (checkScores s))) \<and>
       last (timers (checkScores s))
         = \<lparr>handle = nextHandle (checkScores s) - 1, due = now s + 3000, delay = 3000,
            repeating = False, action = ResetMascot\<rparr>"
  proof (intro impI)
    assume h: "page s = d \<and> map node (elements s) = nodes d \<and> \<not> isLocked s"
    then have "checkScores s = goodScoresBranch s"
      using assms checkScores_by_page [of s d] by (simp add: goodScoresPage_def)
    with h show "checkScores s = goodScoresBranch s \<and>
       textContent (checkScores s) = goodScoresMessage \<and>
       (currentExpression s \<noteq> happy \<longrightarrow> fadeTimer happy s \<in> set (timers (checkScores s))) \<and>
       last (timers (checkScores s))
         = \<lparr>handle = nextHandle (checkScores s) - 1, due = now s + 3000, delay = 3000,
            repeating = False, action = ResetMascot\<rparr>"
      by (simp add: goodScoresBranch_def changeMascotExpression_def setTimeout_def
            fadeTimer_def Let_def)
  qed
  have b: "\<not> fst (scoreVerdict (atsScoreText (page s')) (jobMatchScoreText (page s'))
              (grammarScoreText (page s')) (missingSkillsCount (elements s'))) \<and>
     atsScoreText (page s') = None \<and> jobMatchScoreText (page s') = None
     \<longrightarrow> checkScores s' = s'"
    using checkScores_no_score [of s'] by blast
  have c: "textContent (run (boot url caption d) [Elapse 500]) = goodScoresMessage \<and>
    currentExpression (run (boot url caption d) [Elapse 650]) = happy \<and>
    src (run (boot url caption d) [Elapse 650]) = expressions (basePathOf url) happy \<and>
    textContent (run (boot url caption d) [Elapse 3500]) = defaultMessage \<and>
    currentExpression (run (boot url caption d) [Elapse 3650]) = standing \<and>
    src (run (boot url caption d) [Elapse 3650]) = expressions (basePathOf url) standing"
    by (simp add: run_def good_500 [OF assms] good_650 [OF assms] good_3500 [OF assms]
          good_3650 [OF assms])
  from a b c show ?thesis by blast
qed

lemma goodScoresPage_example: "goodScoresPage (examplePage ''85'')"
  by (simp add: goodScoresPage_def lowScorePage_def verdict_low_iff presentBelow_def
        countAbove_def missingSkillsCount_def examplePage_def exampleButton_def
        loadElement_def parse_defs)

theorem good_scores_reaction_witness:
  "goodScoresPage (examplePage ''85'') \<and>
   \<not> isLocked ((exampleBoot ''85'')\<lparr>now := 500\<rparr>) \<and>
   checkScores ((exampleBoot ''85'')\<lparr>now := 500\<rparr>)
     = goodScoresBranch ((exampleBoot ''85'')\<lparr>now := 500\<rparr>) \<and>
   fadeTimer happy ((exampleBoot ''85'')\<lparr>now := 500\<rparr>)
     \<in> set (timers (checkScores ((exampleBoot ''85'')\<lparr>now := 500\<rparr>))) \<and>
   textContent (run (exampleBoot ''85'') [Elapse 500]) = goodScoresMessage \<and>
   currentExpression (run (exampleBoot ''85'') [Elapse 650]) = happy \<and>
   src (run (exampleBoot ''85'') [Elapse 650]) = ''/static/images/fox_happy.png'' \<and>
   textContent (run (exampleBoot ''85'') [Elapse 3500]) = defaultMessage \<and>
   currentExpression (run (exampleBoot ''85'') [Elapse 3650]) = standing"
proof -
  let ?s = "(exampleBoot ''85'')\<lparr>now := 500\<rparr>"
  have h: "page ?s = examplePage ''85''"
    "map node (elements ?s) = nodes (examplePage ''85'')"
    "\<not> isLocked ?s" "currentExpression ?s \<noteq> happy"
    by (simp_all add: exampleBoot_def boot_eq comp_def loadElement_def)
  let ?b = "boot ''/static/images/fox_standing.png'' [] (examplePage ''85'')"
  note inst = good_scores_reaction [OF goodScoresPage_example,
      of ?s "''/static/images/fox_standing.png''" "[]" ?s]
  from inst h have 1: "checkScores ?s = goodScoresBranch ?s"
    and 2: "fadeTimer happy ?s \<in> set (timers (checkScores ?s))"
    by blast+
  from inst have 3: "textContent (run ?b [Elapse 500]) = goodScoresMessage"
    and 4: "currentExpression (run ?b [Elapse 650]) = happy"
    and 5: "src (run ?b [Elapse 650])
              = expressions (basePathOf ''/static/images/fox_standing.png'') happy"
    and 6: "textContent (run ?b [Elapse 3500]) = defaultMessage"
    and 7: "currentExpression (run ?b [Elapse 3650]) = standing"
    by blast+
  from 5 have 8: "src (run ?b [Elapse 650]) = ''/static/images/fox_happy.png''"
    by (simp add: expressions_def basePathOf_def)
  from goodScoresPage_example h(3) 1 2 3 4 8 6 7 show ?thesis
    by (simp only: exampleBoot_def) simp
qed

text \<open>
  C4 as stated fails on a page whose only score element is a passing grammar score: no
  rule holds and a score element is present, yet after the score check the caption is
  still the default message, no fade and no reset is pending, and the expression stays
  the standing one.
\<close>

theorem grammar_only_page_gets_no_reaction:
  "grammarScoreText grammarOnlyPage = Some (code_units ''80'') \<and>
   \<not> lowScorePage grammarOnlyPage \<and>
   textContent (run (boot ''/static/images/fox_standing.png'' [] grammarOnlyPage) [Elapse 500])
     = defaultMessage \<and>
   map action
     (timers (run (boot ''/static/images/fox_standing.png'' [] grammarOnlyPage) [Elapse 500]))
     = [Rescan] \<and>
   currentExpression
     (run (boot ''/static/images/fox_standing.png'' [] grammarOnlyPage) [Elapse 650]) = standing"
proof -
  let ?b = "boot ''/static/images/fox_standing.png'' [] grammarOnlyPage"
  let ?s = "?b\<lparr>now := 500, timers :=
      [\<lparr>handle = 2, due = 3000, delay = 3000, repeating = True, action = Rescan\<rparr>]\<rparr>"
  have nl: "\<not> lowScorePage grammarOnlyPage"
    by (simp add: lowScorePage_def verdict_low_iff presentBelow_def countAbove_def
          missingSkillsCount_def grammarOnlyPage_def exampleButton_def loadElement_def
          parse_defs)
  then have "\<not> fst (scoreVerdict (atsScoreText (page ?s)) (jobMatchScoreText (page ?s))
            (grammarScoreText (page ?s)) (missingSkillsCount (elements ?s)))"
    by (simp add: lowScorePage_def boot_eq)
  then have c: "checkScores ?s = ?s"
    by (rule checkScores_no_score) (simp_all add: boot_eq grammarOnlyPage_def)
  have "(tick ^^ Suc 499) ?b = tick (?b\<lparr>now := 499\<rparr>)"
    using elapse_to_next [of ?b 499] by (simp add: boot_eq)
  also have "\<dots> = setupHoverDetection (checkScores ?s)"
    by (simp add: fire_defs boot_eq)
  finally have at500: "(tick ^^ 500) ?b = setupHoverDetection ?s"
    by (simp only: c) simp
  have "(tick ^^ (500 + 150)) ?b = (tick ^^ 150) ((tick ^^ 500) ?b)"
    by (rule elapse_add)
  also have "\<dots> = ((tick ^^ 500) ?b)\<lparr>now := now ((tick ^^ 500) ?b) + 150\<rparr>"
    by (rule elapse_idle) (simp only: at500, simp add: setupHoverDetection_eq boot_eq)
  finally have at650: "(tick ^^ 650) ?b = (setupHoverDetection ?s)\<lparr>now := 650\<rparr>"
    by (simp only: at500) (simp add: setupHoverDetection_eq boot_eq)
  from nl show ?thesis
    by (simp only: run_def foldl.simps step.simps at500 at650)
       (simp add: setupHoverDetection_eq boot_eq grammarOnlyPage_def)
qed


subsection \<open>The clock\<close>

lemma now_changeMascotExpression [simp]: "now (changeMascotExpression e m s) = now s"
  by (simp add: changeMascotExpression_def setTimeout_def Let_def)

lemma now_resetMascot [simp]: "now (resetMascot s) = now s"
  by (simp add: resetMascot_def)

lemma checkScores_cases:
  "checkScores s = snd (setTimeout Unlock 5000 (s\<lparr>isLocked := True, color := ''#dc2626''\<rparr>))
   \<or> checkScores s = goodScoresBranch s \<or> checkScores s = s"
proof (cases "fst (scoreVerdict (atsScoreText (page s)) (jobMatchScoreText (page s))
            (grammarScoreText (page s)) (missingSkillsCount (elements s)))")
  case True
  then show ?thesis by (simp add: checkScores_low)
next
  case False
  then show ?thesis by (simp add: checkScores_not_low)
qed

lemma now_checkScores [simp]: "now (checkScores s) = now s"
  using checkScores_cases [of s]
  by (auto simp: goodScoresBranch_def setTimeout_def)

lemma now_clearTimeout [simp]: "now (clearTimeout h s) = now s"
  by (simp add: clearTimeout_def split: option.splits)

lemma now_onMouseEnter [simp]: "now (onMouseEnter sel s) = now s"
  by (simp add: onMouseEnter_def Let_def split: option.splits prod.splits)

lemma now_onMouseLeave [simp]: "now (onMouseLeave sel s) = now s"
  by (simp add: onMouseLeave_def setTimeout_def Let_def split: prod.splits)

lemma now_runCallback [simp]: "now (runCallback cb s) = now s"
  by (cases cb) (simp_all add: runCallback_def setupHoverDetection_eq)

lemma now_fire [simp]: "now (fire h s) = now s"
  by (simp add: fire_def Let_def split: option.splits)

lemma now_foldl_fire [simp]: "now (foldl (\<lambda>acc h. fire h acc) s hs) = now s"
  by (induction hs arbitrary: s) simp_all

lemma now_tick [simp]: "now (tick s) = Suc (now s)"
  by (simp add: tick_def Let_def)

lemma now_elapse [simp]: "now ((tick ^^ n) s) = now s + n"
  by (induction n) simp_all

subsection \<open>Mouse events under the lock and after it\<close>

lemma locked_changeMascotExpression: "isLocked s \<Longrightarrow> changeMascotExpression e m s = s"
  by (simp add: changeMascotExpression_def)

lemma locked_resetMascot: "isLocked s \<Longrightarrow> resetMascot s = s"
  by (simp add: resetMascot_def)

lemma isLocked_clearTimeout [simp]: "isLocked (clearTimeout h s) = isLocked s"
  by (simp add: clearTimeout_def split: option.splits)

lemma locked_onMouseEnter:
  "isLocked s \<Longrightarrow> onMouseEnter sel s = clearTimeout (hoverTimeout s) s"
  by (simp add: onMouseEnter_def Let_def locked_changeMascotExpression split: option.splits)

lemma lockedPhase_clearTimeout:
  "lockedPhase s \<Longrightarrow> lockedPhase (clearTimeout (hoverTimeout s) s)"
  by (cases "hoverTimeout s") (auto simp: lockedPhase_def clearTimeout_def unlockTimer_def)

lemma lockedPhase_onMouseEnter:
  assumes "lockedPhase s"
  shows "lockedPhase (onMouseEnter sel s)"
proof -
  have "isLocked s" using assms by (simp add: lockedPhase_def)
  then have "onMouseEnter sel s = clearTimeout (hoverTimeout s) s"
    by (rule locked_onMouseEnter)
  with lockedPhase_clearTimeout [OF assms] show ?thesis by simp
qed

lemma lockedPhase_onMouseLeave: "lockedPhase s \<Longrightarrow> lockedPhase (onMouseLeave sel s)"
  by (cases "hoverTimeout s")
     (auto simp: lockedPhase_def onMouseLeave_def setTimeout_def clearTimeout_def unlockTimer_def)

lemma unlockedPhase_changeMascotExpression:
  "unlockedPhase s \<Longrightarrow> unlockedPhase (changeMascotExpression e m s)"
  by (auto simp: unlockedPhase_def changeMascotExpression_def setTimeout_def Let_def)

lemma unlockedPhase_clearTimeout: "unlockedPhase s \<Longrightarrow> unlockedPhase (clearTimeout h s)"
  by (cases h) (auto simp: unlockedPhase_def clearTimeout_def)

lemma unlockedPhase_onMouseEnter: "unlockedPhase s \<Longrightarrow> unlockedPhase (onMouseEnter sel s)"
  by (simp add: onMouseEnter_def Let_def unlockedPhase_changeMascotExpression
        unlockedPhase_clearTimeout split: option.splits prod.splits)

lemma unlockedPhase_onMouseLeave: "unlockedPhase s \<Longrightarrow> unlockedPhase (onMouseLeave sel s)"
  by (cases "hoverTimeout s")
     (auto simp: unlockedPhase_def onMouseLeave_def setTimeout_def clearTimeout_def)

lemma foldl_preserves:
  "(\<And>x s. P s \<Longrightarrow> P (f x s)) \<Longrightarrow> P s \<Longrightarrow> P (foldl (\<lambda>acc x. f x acc) s xs)"
  by (induction xs arbitrary: s) simp_all

lemma now_foldl_onMouseEnter [simp]:
  "now (foldl (\<lambda>acc sel. onMouseEnter sel acc) s sels) = now s"
  by (induction sels arbitrary: s) simp_all

lemma now_foldl_onMouseLeave [simp]:
  "now (foldl (\<lambda>acc sel. onMouseLeave sel acc) s sels) = now s"
  by (induction sels arbitrary: s) simp_all


subsection \<open>Timers firing under the lock and after it\<close>

lemma find_handle_Some:
  "find (\<lambda>t. handle t = h) ts = Some t \<Longrightarrow> t \<in> set ts \<and> handle t = h"
  by (induction ts) (auto split: if_splits)

lemma unlockedPhase_runCallback:
  "unlockedPhase s \<Longrightarrow> cb \<noteq> Unlock \<Longrightarrow> cb \<noteq> Startup \<Longrightarrow> unlockedPhase (runCallback cb s)"
proof (cases cb)
  case (FadeSwap e)
  assume "unlockedPhase s"
  with FadeSwap show ?thesis by (simp add: runCallback_def unlockedPhase_def)
next
  case ResetMascot
  assume "unlockedPhase s"
  with ResetMascot show ?thesis
    by (simp add: runCallback_def resetMascot_def unlockedPhase_changeMascotExpression)
next
  case Rescan
  assume "unlockedPhase s"
  with Rescan show ?thesis by (simp add: runCallback_def setupHoverDetection_eq unlockedPhase_def)
qed simp_all

lemma unlockedPhase_fire:
  assumes "unlockedPhase s"
  shows "unlockedPhase (fire h s)"
proof (cases "find (\<lambda>t. handle t = h) (timers s)")
  case None
  with assms show ?thesis by (simp add: fire_def)
next
  case (Some t)
  from find_handle_Some [OF Some] have t: "t \<in> set (timers s)" by simp
  with assms have a: "action t \<noteq> Unlock" "action t \<noteq> Startup"
    by (auto simp: unlockedPhase_def)
  let ?table = "if repeating t
                then filter (\<lambda>u. handle u \<noteq> h) (timers s) @ [t\<lparr>due := now s + delay t\<rparr>]
                else filter (\<lambda>u. handle u \<noteq> h) (timers s)"
  have "unlockedPhase (s\<lparr>timers := ?table\<rparr>)"
    using assms a by (auto simp: unlockedPhase_def)
  from unlockedPhase_runCallback [OF this a] Some show ?thesis
    by (simp add: fire_def Let_def)
qed

lemma lockedPhase_fire_other:
  assumes "lockedPhase s" and "h \<noteq> 3"
  shows "lockedPhase (fire h s)"
proof (cases "find (\<lambda>t. handle t = h) (timers s)")
  case None
  with assms show ?thesis by (simp add: fire_def)
next
  case (Some t)
  from find_handle_Some [OF Some] have t: "t \<in> set (timers s)" "handle t = h" by simp_all
  with assms have a: "action t = ResetMascot \<or> action t = Rescan" "t \<noteq> unlockTimer"
    by (auto simp: lockedPhase_def unlockTimer_def)
  let ?table = "if repeating t
                then filter (\<lambda>u. handle u \<noteq> h) (timers s) @ [t\<lparr>due := now s + delay t\<rparr>]
                else filter (\<lambda>u. handle u \<noteq> h) (timers s)"
  have l: "lockedPhase (s\<lparr>timers := ?table\<rparr>)"
    using assms a t by (auto simp: lockedPhase_def unlockTimer_def)
  then have "isLocked (s\<lparr>timers := ?table\<rparr>)" by (simp add: lockedPhase_def)
  then have "resetMascot (s\<lparr>timers := ?table\<rparr>) = s\<lparr>timers := ?table\<rparr>"
    by (rule locked_resetMascot)
  moreover have "lockedPhase (setupHoverDetection (s\<lparr>timers := ?table\<rparr>))"
    using l by (simp add: setupHoverDetection_eq lockedPhase_def)
  ultimately have "lockedPhase (runCallback (action t) (s\<lparr>timers := ?table\<rparr>))"
    using a(1) l by (auto simp: runCallback_def)
  with Some show ?thesis by (simp add: fire_def Let_def)
qed

lemma lockedPhase_fire_unlock:
  assumes "lockedPhase s"
  shows "unlockedPhase (fire 3 s)"
proof -
  from assms have u: "unlockTimer \<in> set (timers s)" by (simp add: lockedPhase_def)
  then obtain t where f: "find (\<lambda>t. handle t = 3) (timers s) = Some t"
    by (cases "find (\<lambda>t. handle t = 3) (timers s)")
       (auto simp: find_None_iff unlockTimer_def)
  from find_handle_Some [OF f] assms have "t = unlockTimer"
    by (auto simp: lockedPhase_def)
  with f assms show ?thesis
    by (auto simp: fire_def Let_def runCallback_def unlockTimer_def unlockedPhase_def
          lockedPhase_def)
qed

lemma phases_foldl_fire:
  "lockedPhase s \<or> unlockedPhase s \<Longrightarrow> 3 \<in> set hs \<or> unlockedPhase s \<Longrightarrow>
   unlockedPhase (foldl (\<lambda>acc h. fire h acc) s hs)"
proof (induction hs arbitrary: s)
  case Nil
  then show ?case by simp
next
  case (Cons h hs)
  show ?case
  proof (cases "unlockedPhase s")
    case True
    then have "unlockedPhase (fire h s)" by (rule unlockedPhase_fire)
    with Cons.IH [of "fire h s"] show ?thesis by simp
  next
    case False
    with Cons.prems have l: "lockedPhase s" and m: "3 \<in> set (h # hs)" by auto
    show ?thesis
    proof (cases "h = 3")
      case True
      with lockedPhase_fire_unlock [OF l] Cons.IH [of "fire h s"] show ?thesis by simp
    next
      case False
      with lockedPhase_fire_other [OF l] m Cons.IH [of "fire h s"] show ?thesis by auto
    qed
  qed
qed

lemma lockedPhase_foldl_fire:
  "lockedPhase s \<Longrightarrow> 3 \<notin> set hs \<Longrightarrow> lockedPhase (foldl (\<lambda>acc h. fire h acc) s hs)"
  by (induction hs arbitrary: s) (auto simp: lockedPhase_fire_other)

lemma lockedPhase_now: "lockedPhase s \<Longrightarrow> lockedPhase (s\<lparr>now := n\<rparr>)"
  by (simp add: lockedPhase_def)

lemma unlockedPhase_now: "unlockedPhase s \<Longrightarrow> unlockedPhase (s\<lparr>now := n\<rparr>)"
  by (simp add: unlockedPhase_def)

lemma lockedPhase_tick_before:
  assumes "lockedPhase s" and "Suc (now s) < 5500"
  shows "lockedPhase (tick s)"
proof -
  have "3 \<notin> set (map handle (filter (\<lambda>t. due t \<le> Suc (now s)) (timers s)))"
    using assms by (auto simp: lockedPhase_def unlockTimer_def)
  with lockedPhase_foldl_fire [OF lockedPhase_now [OF assms(1), of "Suc (now s)"]]
  show ?thesis by (simp add: tick_def Let_def)
qed

lemma lockedPhase_tick_unlock:
  assumes "lockedPhase s" and "Suc (now s) = 5500"
  shows "unlockedPhase (tick s)"
proof -
  have "unlockTimer \<in> set (filter (\<lambda>t. due t \<le> Suc (now s)) (timers s))"
    using assms by (simp add: lockedPhase_def unlockTimer_def)
  then have "handle unlockTimer \<in> set (map handle (filter (\<lambda>t. due t \<le> Suc (now s)) (timers s)))"
    by (simp only: set_map) (rule imageI)
  then have "3 \<in> set (map handle (filter (\<lambda>t. due t \<le> Suc (now s)) (timers s)))"
    by (simp add: unlockTimer_def)
  with phases_foldl_fire [of "s\<lparr>now := Suc (now s)\<rparr>"] lockedPhase_now [OF assms(1), of "Suc (now s)"]
  show ?thesis by (simp add: tick_def Let_def)
qed

lemma unlockedPhase_tick: "unlockedPhase s \<Longrightarrow> unlockedPhase (tick s)"
  using phases_foldl_fire [of "s\<lparr>now := Suc (now s)\<rparr>"] unlockedPhase_now [of s "Suc (now s)"]
  by (simp add: tick_def Let_def)


subsection \<open>The timeline of a page with a low score\<close>

lemma low_500:
  assumes "lowScorePage d"
  shows "tick ((boot url caption d)\<lparr>now := 499\<rparr>) =
     \<lparr>page = d, elements = scanned d, basePath = basePathOf url, src = url,
      opacity = [], transition = ''opacity 0.2s ease'', textContent = defaultMessage,
      color = ''#dc2626'', currentExpression = standing, isLocked = True, hoverTimeout = None,
      timers = [\<lparr>handle = 2, due = 3000, delay = 3000, repeating = True, action = Rescan\<rparr>,
                unlockTimer],
      nextHandle = 4, now = 500\<rparr>"
proof -
  let ?s = "(boot url caption d)\<lparr>now := 500, timers :=
      [\<lparr>handle = 2, due = 3000, delay = 3000, repeating = True, action = Rescan\<rparr>]\<rparr>"
  have "fst (scoreVerdict (atsScoreText (page ?s)) (jobMatchScoreText (page ?s))
            (grammarScoreText (page ?s)) (missingSkillsCount (elements ?s)))"
    using assms by (simp add: lowScorePage_def boot_eq)
  then have c: "checkScores ?s
      = snd (setTimeout Unlock 5000 (?s\<lparr>isLocked := True, color := ''#dc2626''\<rparr>))"
    by (rule checkScores_low)
  have "tick ((boot url caption d)\<lparr>now := 499\<rparr>) = setupHoverDetection (checkScores ?s)"
    by (simp add: fire_defs boot_eq)
  also have "\<dots> = setupHoverDetection
      (snd (setTimeout Unlock 5000 (?s\<lparr>isLocked := True, color := ''#dc2626''\<rparr>)))"
    by (simp only: c)
  finally show ?thesis
    by (simp add: setupHoverDetection_eq setTimeout_def boot_eq scanned_def unlockTimer_def)
qed

lemma lockTimeline_tick:
  assumes low: "lowScorePage d" and inv: "lockTimeline url caption d s"
  shows "lockTimeline url caption d (tick s)"
proof -
  consider (a) "Suc (now s) < 500" | (b) "Suc (now s) = 500"
    | (c) "500 \<le> now s" "Suc (now s) < 5500" | (e) "500 \<le> now s" "Suc (now s) = 5500"
    | (f) "5500 \<le> now s"
    by linarith
  then show ?thesis
  proof cases
    case a
    with inv have s: "s = (boot url caption d)\<lparr>now := now s\<rparr>"
      by (simp add: lockTimeline_def)
    have "list_all (\<lambda>t. Suc (now s) < due t) (timers s)"
      using a by (subst s) (simp add: boot_eq)
    then have "tick s = s\<lparr>now := Suc (now s)\<rparr>" by (rule tick_idle)
    also have "\<dots> = (boot url caption d)\<lparr>now := Suc (now s)\<rparr>"
      by (subst s) simp
    finally show ?thesis using a by (simp add: lockTimeline_def)
  next
    case b
    with inv have s: "s = (boot url caption d)\<lparr>now := 499\<rparr>"
      by (simp add: lockTimeline_def)
    have "lockedPhase (tick ((boot url caption d)\<lparr>now := 499\<rparr>))"
      by (simp only: low_500 [OF low]) (simp add: lockedPhase_def unlockTimer_def)
    with s b show ?thesis by (simp add: lockTimeline_def)
  next
    case c
    with inv have "lockedPhase s" by (simp add: lockTimeline_def)
    from lockedPhase_tick_before [OF this c(2)] c show ?thesis
      by (simp add: lockTimeline_def)
  next
    case e
    with inv have "lockedPhase s" by (simp add: lockTimeline_def)
    from lockedPhase_tick_unlock [OF this e(2)] e show ?thesis
      by (simp add: lockTimeline_def)
  next
    case f
    with inv have "unlockedPhase s" by (simp add: lockTimeline_def)
    from unlockedPhase_tick [OF this] f show ?thesis
      by (simp add: lockTimeline_def)
  qed
qed

lemma lockTimeline_elapse:
  "lowScorePage d \<Longrightarrow> lockTimeline url caption d s \<Longrightarrow>
   lockTimeline url caption d ((tick ^^ n) s)"
  by (induction n) (simp_all add: lockTimeline_tick)

lemma unbound_before_startup:
  assumes "s = (boot url caption d)\<lparr>now := k\<rparr>" and "i < length (elements s)"
  shows "listeners (elements s ! i) = []"
  using assms by (simp add: boot_eq loadElement_def)

lemma lockTimeline_step:
  assumes low: "lowScorePage d" and inv: "lockTimeline url caption d s"
  shows "lockTimeline url caption d (step s ev)"
proof (cases ev)
  case (Elapse n)
  with lockTimeline_elapse [OF low inv] show ?thesis by simp
next
  case (MouseEnter i)
  show ?thesis
  proof (cases "i < length (elements s)")
    case False
    with MouseEnter inv show ?thesis by simp
  next
    case True
    let ?r = "foldl (\<lambda>acc sel. onMouseEnter sel acc) s (listeners (elements s ! i))"
    consider (a) "now s < 500" | (c) "500 \<le> now s" "now s < 5500" | (f) "5500 \<le> now s"
      by linarith
    then have "lockTimeline url caption d ?r"
    proof cases
      case a
      with inv have "s = (boot url caption d)\<lparr>now := now s\<rparr>" by (simp add: lockTimeline_def)
      from unbound_before_startup [OF this True] inv show ?thesis by simp
    next
      case c
      with inv have "lockedPhase s" by (simp add: lockTimeline_def)
      then have "lockedPhase ?r"
        by (rule foldl_preserves [where P = lockedPhase, rotated]) (rule lockedPhase_onMouseEnter)
      with c show ?thesis by (simp add: lockTimeline_def)
    next
      case f
      with inv have "unlockedPhase s" by (simp add: lockTimeline_def)
      then have "unlockedPhase ?r"
        by (rule foldl_preserves [where P = unlockedPhase, rotated])
           (rule unlockedPhase_onMouseEnter)
      with f show ?thesis by (simp add: lockTimeline_def)
    qed
    with MouseEnter True show ?thesis by simp
  qed
next
  case (MouseLeave i)
  show ?thesis
  proof (cases "i < length (elements s)")
    case False
    with MouseLeave inv show ?thesis by simp
  next
    case True
    let ?r = "foldl (\<lambda>acc sel. onMouseLeave sel acc) s (listeners (elements s ! i))"
    consider (a) "now s < 500" | (c) "500 \<le> now s" "now s < 5500" | (f) "5500 \<le> now s"
      by linarith
    then have "lockTimeline url caption d ?r"
    proof cases
      case a
      with inv have "s = (boot url caption d)\<lparr>now := now s\<rparr>" by (simp add: lockTimeline_def)
      from unbound_before_startup [OF this True] inv show ?thesis by simp
    next
      case c
      with inv have "lockedPhase s" by (simp add: lockTimeline_def)
      then have "lockedPhase ?r"
        by (rule foldl_preserves [where P = lockedPhase, rotated]) (rule lockedPhase_onMouseLeave)
      with c show ?thesis by (simp add: lockTimeline_def)
    next
      case f
      with inv have "unlockedPhase s" by (simp add: lockTimeline_def)
      then have "unlockedPhase ?r"
        by (rule foldl_preserves [where P = unlockedPhase, rotated])
           (rule unlockedPhase_onMouseLeave)
      with f show ?thesis by (simp add: lockTimeline_def)
    qed
    with MouseLeave True show ?thesis by simp
  qed
qed

lemma lockTimeline_run:
  assumes "lowScorePage d"
  shows "lockTimeline url caption d (run (boot url caption d) evs)"
proof -
  have "lockTimeline url caption d s \<Longrightarrow> lockTimeline url caption d (foldl step s evs)" for s
    by (induction evs arbitrary: s) (simp_all add: lockTimeline_step [OF assms])
  moreover have "lockTimeline url caption d (boot url caption d)"
    by (simp add: lockTimeline_def boot_eq)
  ultimately show ?thesis by (simp add: run_def)
qed

subsection \<open>The lock\<close>

lemma locked_onMouseLeave_fields:
  "isLocked s \<Longrightarrow>
   isLocked (onMouseLeave sel s) \<and> currentExpression (onMouseLeave sel s) = currentExpression s \<and>
   textContent (onMouseLeave sel s) = textContent s"
  by (cases "hoverTimeout s") (simp_all add: onMouseLeave_def setTimeout_def clearTimeout_def)

lemma locked_onMouseEnter_fields:
  "isLocked s \<Longrightarrow>
   isLocked (onMouseEnter sel s) \<and> currentExpression (onMouseEnter sel s) = currentExpression s \<and>
   textContent (onMouseEnter sel s) = textContent s"
  by (cases "hoverTimeout s") (simp_all add: locked_onMouseEnter clearTimeout_def)

lemma locked_foldl_onMouseEnter:
  "isLocked s \<Longrightarrow>
   isLocked (foldl (\<lambda>acc sel. onMouseEnter sel acc) s sels) \<and>
   currentExpression (foldl (\<lambda>acc sel. onMouseEnter sel acc) s sels) = currentExpression s \<and>
   textContent (foldl (\<lambda>acc sel. onMouseEnter sel acc) s sels) = textContent s"
proof (induction sels arbitrary: s)
  case Nil
  then show ?case by simp
next
  case (Cons sel sels)
  from locked_onMouseEnter_fields [OF Cons.prems, of sel] Cons.IH [of "onMouseEnter sel s"]
  show ?case by simp
qed

lemma locked_foldl_onMouseLeave:
  "isLocked s \<Longrightarrow>
   isLocked (foldl (\<lambda>acc sel. onMouseLeave sel acc) s sels) \<and>
   currentExpression (foldl (\<lambda>acc sel. onMouseLeave sel acc) s sels) = currentExpression s \<and>
   textContent (foldl (\<lambda>acc sel. onMouseLeave sel acc) s sels) = textContent s"
proof (induction sels arbitrary: s)
  case Nil
  then show ?case by simp
next
  case (Cons sel sels)
  from locked_onMouseLeave_fields [OF Cons.prems, of sel] Cons.IH [of "onMouseLeave sel s"]
  show ?case by simp
qed

lemma locked_step_MouseEnter:
  "isLocked s \<Longrightarrow>
   isLocked (step s (MouseEnter i)) \<and>
   currentExpression (step s (MouseEnter i)) = currentExpression s \<and>
   textContent (step s (MouseEnter i)) = textContent s"
  using locked_foldl_onMouseEnter [of s] by simp

lemma locked_step_MouseLeave:
  "isLocked s \<Longrightarrow>
   isLocked (step s (MouseLeave i)) \<and>
   currentExpression (step s (MouseLeave i)) = currentExpression s \<and>
   textContent (step s (MouseLeave i)) = textContent s"
  using locked_foldl_onMouseLeave [of s] by simp

lemma now_step [simp]:
  "now (step s ev) = now s + (case ev of Elapse n \<Rightarrow> n | _ \<Rightarrow> 0)"
  by (cases ev) simp_all

lemma now_foldl_step: "now s \<le> now (foldl step s evs)"
proof (induction evs arbitrary: s)
  case Nil
  show ?case by simp
next
  case (Cons ev evs)
  have "now s \<le> now (step s ev)" by simp
  also have "\<dots> \<le> now (foldl step (step s ev) evs)" by (rule Cons.IH)
  finally show ?case by simp
qed

lemma now_run_append: "now (run s evs) \<le> now (run s (evs @ later))"
  by (simp add: run_def now_foldl_step)

text \<open>
  C2. In any state in which the lock flag is set, \<open>changeMascotExpression\<close> and
  \<open>resetMascot\<close> change nothing, and a mouseenter or mouseleave on any element leaves the
  flag set and the current expression and the caption text as they were. On every document
  with a low score, whatever mouse events arrive and however time is cut up: from the score
  check at 500ms until 5 seconds later the flag is set and the caption has the alert
  colour, and between any two moments of that stretch the expression and the caption text
  are the same; from 5500ms on the flag is off and the caption colour is cleared.
\<close>

theorem lock_holds_against_hover_until_unlock:
  "(isLocked s \<longrightarrow>
      changeMascotExpression expression message s = s \<and> resetMascot s = s \<and>
      isLocked (step s (MouseEnter i)) \<and>
      currentExpression (step s (MouseEnter i)) = currentExpression s \<and>
      textContent (step s (MouseEnter i)) = textContent s \<and>
      isLocked (step s (MouseLeave i)) \<and>
      currentExpression (step s (MouseLeave i)) = currentExpression s \<and>
      textContent (step s (MouseLeave i)) = textContent s) \<and>
   (lowScorePage d \<longrightarrow>
      (500 \<le> now (run (boot url caption d) evs) \<and>
       now (run (boot url caption d) (evs @ later)) < 5500 \<longrightarrow>
         isLocked (run (boot url caption d) evs) \<and>
         color (run (boot url caption d) evs) = ''#dc2626'' \<and>
         isLocked (run (boot url caption d) (evs @ later)) \<and>
         currentExpression (run (boot url caption d) (evs @ later))
           = currentExpression (run (boot url caption d) evs) \<and>
         textContent (run (boot url caption d) (evs @ later))
           = textContent (run (boot url caption d) evs)) \<and>
      (5500 \<le> now (run (boot url caption d) evs) \<longrightarrow>
         \<not> isLocked (run (boot url caption d) evs) \<and>
         color (run (boot url caption d) evs) = []))"
proof -
  let ?r = "run (boot url caption d) evs"
  let ?r' = "run (boot url caption d) (evs @ later)"
  have a: "isLocked s \<longrightarrow>
      changeMascotExpression expression message s = s \<and> resetMascot s = s \<and>
      isLocked (step s (MouseEnter i)) \<and>
      currentExpression (step s (MouseEnter i)) = currentExpression s \<and>
      textContent (step s (MouseEnter i)) = textContent s \<and>
      isLocked (step s (MouseLeave i)) \<and>
      currentExpression (step s (MouseLeave i)) = currentExpression s \<and>
      textContent (step s (MouseLeave i)) = textContent s"
    using locked_step_MouseEnter [of s i] locked_step_MouseLeave [of s i]
      locked_changeMascotExpression [of s expression message] locked_resetMascot [of s]
    by blast
  have b: "lowScorePage d \<longrightarrow>
      (500 \<le> now ?r \<and> now ?r' < 5500 \<longrightarrow>
         isLocked ?r \<and> color ?r = ''#dc2626'' \<and> isLocked ?r' \<and>
         currentExpression ?r' = currentExpression ?r \<and> textContent ?r' = textContent ?r) \<and>
      (5500 \<le> now ?r \<longrightarrow> \<not> isLocked ?r \<and> color ?r = [])"
  proof
    assume low: "lowScorePage d"
    note t = lockTimeline_run [OF low, of url caption evs]
    note t' = lockTimeline_run [OF low, of url caption "evs @ later"]
    have 1: "500 \<le> now ?r \<and> now ?r' < 5500 \<longrightarrow>
         isLocked ?r \<and> color ?r = ''#dc2626'' \<and> isLocked ?r' \<and>
         currentExpression ?r' = currentExpression ?r \<and> textContent ?r' = textContent ?r"
    proof
      assume w: "500 \<le> now ?r \<and> now ?r' < 5500"
      with now_run_append [of "boot url caption d" evs later]
      have "500 \<le> now ?r" "now ?r < 5500" "500 \<le> now ?r'" "now ?r' < 5500" by simp_all
      with t t' have "lockedPhase ?r" "lockedPhase ?r'"
        by (simp_all add: lockTimeline_def)
      then show "isLocked ?r \<and> color ?r = ''#dc2626'' \<and> isLocked ?r' \<and>
         currentExpression ?r' = currentExpression ?r \<and> textContent ?r' = textContent ?r"
        by (simp add: lockedPhase_def)
    qed
    have 2: "5500 \<le> now ?r \<longrightarrow> \<not> isLocked ?r \<and> color ?r = []"
      using t by (auto simp: lockTimeline_def unlockedPhase_def)
    from 1 2 show "(500 \<le> now ?r \<and> now ?r' < 5500 \<longrightarrow>
         isLocked ?r \<and> color ?r = ''#dc2626'' \<and> isLocked ?r' \<and>
         currentExpression ?r' = currentExpression ?r \<and> textContent ?r' = textContent ?r) \<and>
      (5500 \<le> now ?r \<longrightarrow> \<not> isLocked ?r \<and> color ?r = [])"
      by (rule conjI)
  qed
  from a b show ?thesis by (rule conjI)
qed

lemma lowScorePage_example: "lowScorePage (examplePage ''45'')"
  by (simp add: lowScorePage_def verdict_low_iff presentBelow_def examplePage_def parse_defs)

lemma now_exampleBoot [simp]: "now (exampleBoot ats) = 0"
  by (simp add: exampleBoot_def boot_eq)

theorem lock_holds_against_hover_until_unlock_witness:
  "lowScorePage (examplePage ''45'') \<and>
   isLocked (run (exampleBoot ''45'') [Elapse 500]) \<and>
   textContent (step (run (exampleBoot ''45'') [Elapse 500]) (MouseEnter 0))
     = textContent (run (exampleBoot ''45'') [Elapse 500]) \<and>
   isLocked (run (exampleBoot ''45'') ([Elapse 500] @ [MouseEnter 0, Elapse 200, MouseLeave 0])) \<and>
   textContent (run (exampleBoot ''45'') ([Elapse 500] @ [MouseEnter 0, Elapse 200, MouseLeave 0]))
     = textContent (run (exampleBoot ''45'') [Elapse 500]) \<and>
   \<not> isLocked
       (run (exampleBoot ''45'') [Elapse 500, MouseEnter 0, Elapse 200, MouseLeave 0, Elapse 4800]) \<and>
   color (run (exampleBoot ''45'') [Elapse 500, MouseEnter 0, Elapse 200, MouseLeave 0, Elapse 4800])
     = []"
proof -
  note low = lowScorePage_example
  have n1: "now (run (exampleBoot ''45'') [Elapse 500]) = 500"
    and n2: "now (run (exampleBoot ''45'') ([Elapse 500] @ [MouseEnter 0, Elapse 200, MouseLeave 0]))
               = 700"
    and n3: "now (run (exampleBoot ''45'')
               [Elapse 500, MouseEnter 0, Elapse 200, MouseLeave 0, Elapse 4800]) = 5500"
    by (simp_all only: run_def append.simps foldl.simps now_step now_exampleBoot) simp_all
  from lock_holds_against_hover_until_unlock
    [of "run (exampleBoot ''45'') [Elapse 500]" thinking "[]" 0 "examplePage ''45''"
      "''/static/images/fox_standing.png''" "[]" "[Elapse 500]"
      "[MouseEnter 0, Elapse 200, MouseLeave 0]"] low n1 n2
  have l1: "isLocked (run (exampleBoot ''45'') [Elapse 500])"
    and t1: "textContent (step (run (exampleBoot ''45'') [Elapse 500]) (MouseEnter 0))
     = textContent (run (exampleBoot ''45'') [Elapse 500])"
    and l2: "isLocked
      (run (exampleBoot ''45'') ([Elapse 500] @ [MouseEnter 0, Elapse 200, MouseLeave 0]))"
    and t2: "textContent
      (run (exampleBoot ''45'') ([Elapse 500] @ [MouseEnter 0, Elapse 200, MouseLeave 0]))
     = textContent (run (exampleBoot ''45'') [Elapse 500])"
    by (simp_all add: exampleBoot_def)
  from lock_holds_against_hover_until_unlock
    [of "run (exampleBoot ''45'') [Elapse 500]" thinking "[]" 0 "examplePage ''45''"
      "''/static/images/fox_standing.png''" "[]"
      "[Elapse 500, MouseEnter 0, Elapse 200, MouseLeave 0, Elapse 4800]" "[]"] low n3
  have l3: "\<not> isLocked
       (run (exampleBoot ''45'') [Elapse 500, MouseEnter 0, Elapse 200, MouseLeave 0, Elapse 4800])"
    and c3: "color (run (exampleBoot ''45'') [Elapse 500, MouseEnter 0, Elapse 200, MouseLeave 0, Elapse 4800])
     = []"
    by (simp_all add: exampleBoot_def)
  from low l1 t1 l2 t2 l3 c3 show ?thesis by blast
qed

text \<open>
  C1 on the example page whose ATS score reads 45. At the score check the lock is set and
  the caption has the alert colour, and 5000ms later the lock is off and the colour
  cleared, as claimed. But the expression is still the standing one and the caption still
  the default message, not the message about the ATS score, and 150ms later (when a fade
  would have ended) expression and image are unchanged: \<open>checkScores\<close> sets the lock before
  it calls \<open>changeMascotExpression\<close>, which returns at once under the lock.
\<close>

theorem low_ats_score_shows_no_sad_face:
  "isLocked (run (exampleBoot ''45'') [Elapse 500]) \<and>
   color (run (exampleBoot ''45'') [Elapse 500]) = ''#dc2626'' \<and>
   currentExpression (run (exampleBoot ''45'') [Elapse 500]) = standing \<and>
   textContent (run (exampleBoot ''45'') [Elapse 500]) = defaultMessage \<and>
   defaultMessage \<noteq> atsMessage \<and>
   currentExpression (run (exampleBoot ''45'') [Elapse 650]) = standing \<and>
   src (run (exampleBoot ''45'') [Elapse 650]) = ''/static/images/fox_standing.png'' \<and>
   \<not> isLocked (run (exampleBoot ''45'') [Elapse 500, Elapse 5000]) \<and>
   color (run (exampleBoot ''45'') [Elapse 500, Elapse 5000]) = []"
proof -
  let ?b = "boot ''/static/images/fox_standing.png'' [] (examplePage ''45'')"
  note low = lowScorePage_example
  have "(tick ^^ Suc 499) ?b = tick (?b\<lparr>now := 499\<rparr>)"
    using elapse_to_next [of ?b 499] by (simp add: boot_eq)
  then have at500: "(tick ^^ 500) ?b = tick (?b\<lparr>now := 499\<rparr>)" by simp
  have "(tick ^^ (500 + 150)) ?b = (tick ^^ 150) ((tick ^^ 500) ?b)"
    by (rule elapse_add)
  also have "\<dots> = ((tick ^^ 500) ?b)\<lparr>now := now ((tick ^^ 500) ?b) + 150\<rparr>"
    by (rule elapse_idle) (simp only: at500 low_500 [OF low], simp add: unlockTimer_def)
  finally have at650: "(tick ^^ 650) ?b = (tick (?b\<lparr>now := 499\<rparr>))\<lparr>now := 650\<rparr>"
    by (simp only: at500 low_500 [OF low]) simp
  have n: "now (run (exampleBoot ''45'') [Elapse 500, Elapse 5000]) = 5500"
    by (simp only: run_def foldl.simps now_step now_exampleBoot) simp
  from lockTimeline_run [OF low, of "''/static/images/fox_standing.png''" "[]"
      "[Elapse 500, Elapse 5000]"] n
  have u: "unlockedPhase (run (exampleBoot ''45'') [Elapse 500, Elapse 5000])"
    by (simp add: lockTimeline_def exampleBoot_def)
  have m: "defaultMessage \<noteq> atsMessage"
    by (simp add: defaultMessage_def atsMessage_def)
  have "isLocked (run (exampleBoot ''45'') [Elapse 500]) \<and>
   color (run (exampleBoot ''45'') [Elapse 500]) = ''#dc2626'' \<and>
   currentExpression (run (exampleBoot ''45'') [Elapse 500]) = standing \<and>
   textContent (run (exampleBoot ''45'') [Elapse 500]) = defaultMessage \<and>
   currentExpression (run (exampleBoot ''45'') [Elapse 650]) = standing \<and>
   src (run (exampleBoot ''45'') [Elapse 650]) = ''/static/images/fox_standing.png''"
    by (simp only: run_def foldl.simps step.simps exampleBoot_def at500 at650 low_500 [OF low])
       simp
  with u m show ?thesis by (simp add: unlockedPhase_def)
qed

subsection \<open>Reset timers\<close>

lemmas count_defs = startupPending_def untrackedResets_def trackedResets_def resetTimers_def

lemma timersWellFormed_append:
  assumes "timersWellFormed s" and "\<not> repeating t" and "handle t = nextHandle s"
  shows "timersWellFormed (s\<lparr>timers := timers s @ [t], nextHandle := Suc (nextHandle s)\<rparr>)"
proof -
  from assms(1) have d: "distinct (map handle (timers s))"
    and b: "\<forall>u \<in> set (timers s). handle u < nextHandle s \<and> (repeating u \<longrightarrow> action u = Rescan)"
    and h: "\<forall>h. hoverTimeout s = Some h \<longrightarrow> h < nextHandle s"
    by (simp_all add: timersWellFormed_def)
  from b assms(3) have "handle t \<notin> handle ` set (timers s)" by auto
  with d have 1: "distinct (map handle (timers s @ [t]))" by simp
  from b assms(2,3) have 2: "\<forall>u \<in> set (timers s @ [t]).
      handle u < Suc (nextHandle s) \<and> (repeating u \<longrightarrow> action u = Rescan)"
    by (auto intro: less_SucI)
  from h have 3: "\<forall>h. hoverTimeout s = Some h \<longrightarrow> h < Suc (nextHandle s)"
    by (auto intro: less_SucI)
  from 1 2 3 show ?thesis by (simp add: timersWellFormed_def)
qed

lemma timersWellFormed_filter:
  "timersWellFormed s \<Longrightarrow> timersWellFormed (s\<lparr>timers := filter P (timers s)\<rparr>)"
  by (simp add: timersWellFormed_def distinct_map_filter)

lemma resetInvariant_fields:
  "resetInvariant d s \<Longrightarrow> timers s' = timers s \<Longrightarrow> nextHandle s' = nextHandle s \<Longrightarrow>
   hoverTimeout s' = hoverTimeout s \<Longrightarrow> page s' = page s \<Longrightarrow>
   map node (elements s') = map node (elements s) \<Longrightarrow> resetInvariant d s'"
  by (simp add: resetInvariant_def timersWellFormed_def count_defs)

lemma resetInvariant_append:
  assumes "resetInvariant d s" and "action t \<noteq> ResetMascot" and "action t \<noteq> Startup"
    and "\<not> repeating t" and "handle t = nextHandle s"
  shows "resetInvariant d (s\<lparr>timers := timers s @ [t], nextHandle := Suc (nextHandle s)\<rparr>)"
proof -
  from assms(1) have "timersWellFormed s" by (simp add: resetInvariant_def)
  from timersWellFormed_append [OF this assms(4,5)] assms(1,2,3) show ?thesis
    by (simp add: resetInvariant_def count_defs)
qed

lemma length_filter_conj_le:
  "length (filter (\<lambda>x. P x \<and> Q x) xs) \<le> length (filter Q xs)"
  by (induction xs) auto

lemma resetInvariant_filter:
  assumes "resetInvariant d s"
  shows "resetInvariant d (s\<lparr>timers := filter P (timers s)\<rparr>)"
proof -
  let ?s = "s\<lparr>timers := filter P (timers s)\<rparr>"
  from assms have "timersWellFormed s" by (simp add: resetInvariant_def)
  then have w: "timersWellFormed ?s" by (rule timersWellFormed_filter)
  have 1: "length (startupPending ?s) \<le> length (startupPending s)"
    by (simp add: count_defs length_filter_conj_le)
  have 2: "length (untrackedResets ?s) \<le> length (untrackedResets s)"
    by (simp add: count_defs length_filter_conj_le)
  from 2 have 3: "untrackedResets s = [] \<Longrightarrow> untrackedResets ?s = []" by simp
  have 4: "set (untrackedResets ?s) \<subseteq> set (untrackedResets s)"
    by (auto simp: count_defs)
  from assms w 1 2 3 4 show ?thesis
    by (auto simp: resetInvariant_def)
qed


lemma resetInvariant_clearTimeout:
  "resetInvariant d s \<Longrightarrow> resetInvariant d (clearTimeout h s)"
  by (cases h) (simp_all add: clearTimeout_def resetInvariant_filter)

lemma changeMascotExpression_cases:
  "changeMascotExpression e m s = s \<or>
   changeMascotExpression e m s = s\<lparr>textContent := m\<rparr> \<or>
   changeMascotExpression e m s
     = s\<lparr>opacity := ''0.5'', timers := timers s @ [fadeTimer e s],
         nextHandle := Suc (nextHandle s)\<rparr> \<or>
   changeMascotExpression e m s
     = s\<lparr>opacity := ''0.5'', timers := timers s @ [fadeTimer e s],
         nextHandle := Suc (nextHandle s), textContent := m\<rparr>"
  by (simp add: changeMascotExpression_def setTimeout_def Let_def fadeTimer_def)

lemma resetInvariant_changeMascotExpression:
  assumes "resetInvariant d s"
  shows "resetInvariant d (changeMascotExpression e m s)"
proof -
  have f: "resetInvariant d
      (s\<lparr>timers := timers s @ [fadeTimer e s], nextHandle := Suc (nextHandle s)\<rparr>)"
    using assms by (rule resetInvariant_append) (simp_all add: fadeTimer_def)
  from changeMascotExpression_cases [of e m s] show ?thesis
  proof (elim disjE)
    assume "changeMascotExpression e m s = s"
    with assms show ?thesis by simp
  next
    assume "changeMascotExpression e m s = s\<lparr>textContent := m\<rparr>"
    with resetInvariant_fields [OF assms, of "s\<lparr>textContent := m\<rparr>"] show ?thesis by simp
  next
    assume eq: "changeMascotExpression e m s
           = s\<lparr>opacity := ''0.5'', timers := timers s @ [fadeTimer e s],
               nextHandle := Suc (nextHandle s)\<rparr>"
    from resetInvariant_fields [OF f, of "changeMascotExpression e m s"] eq
    show ?thesis by simp
  next
    assume eq: "changeMascotExpression e m s
           = s\<lparr>opacity := ''0.5'', timers := timers s @ [fadeTimer e s],
               nextHandle := Suc (nextHandle s), textContent := m\<rparr>"
    from resetInvariant_fields [OF f, of "changeMascotExpression e m s"] eq
    show ?thesis by simp
  qed
qed

lemma counts_changeMascotExpression [simp]:
  "startupPending (changeMascotExpression e m s) = startupPending s"
  "untrackedResets (changeMascotExpression e m s) = untrackedResets s"
  "hoverTimeout (changeMascotExpression e m s) = hoverTimeout s"
  "nextHandle s \<le> nextHandle (changeMascotExpression e m s)"
  "page (changeMascotExpression e m s) = page s"
  by (simp_all add: changeMascotExpression_def setTimeout_def Let_def count_defs)

lemma resetInvariant_resetMascot: "resetInvariant d s \<Longrightarrow> resetInvariant d (resetMascot s)"
  by (simp add: resetMascot_def resetInvariant_changeMascotExpression)

lemma resetInvariant_onMouseEnter:
  "resetInvariant d s \<Longrightarrow> resetInvariant d (onMouseEnter sel s)"
  by (simp add: onMouseEnter_def Let_def resetInvariant_clearTimeout
        resetInvariant_changeMascotExpression split: option.splits prod.splits)

lemma resetInvariant_onMouseLeave:
  assumes "resetInvariant d s"
  shows "resetInvariant d (onMouseLeave sel s)"
proof -
  let ?c = "clearTimeout (hoverTimeout s) s"
  let ?new = "\<lparr>handle = nextHandle s, due = now s + 300, delay = 300, repeating = False,
                action = ResetMascot\<rparr>"
  have eq: "onMouseLeave sel s
      = ?c\<lparr>timers := timers ?c @ [?new], nextHandle := Suc (nextHandle s),
            hoverTimeout := Some (nextHandle s)\<rparr>"
    by (cases "hoverTimeout s") (simp_all add: onMouseLeave_def setTimeout_def clearTimeout_def)
  have c: "resetInvariant d ?c" using assms by (rule resetInvariant_clearTimeout)
  have nh: "nextHandle ?c = nextHandle s" and ht: "hoverTimeout ?c = hoverTimeout s"
    by (cases "hoverTimeout s"; simp add: clearTimeout_def)+
  from c have w: "timersWellFormed ?c" by (simp add: resetInvariant_def)
  have gone: "\<forall>t \<in> set (timers ?c). hoverTimeout s \<noteq> Some (handle t)"
    by (cases "hoverTimeout s") (simp_all add: clearTimeout_def)
  have below: "\<forall>t \<in> set (timers ?c). handle t \<noteq> nextHandle s"
    using w nh by (auto simp: timersWellFormed_def)
  let ?r = "?c\<lparr>timers := timers ?c @ [?new], nextHandle := Suc (nextHandle s),
            hoverTimeout := Some (nextHandle s)\<rparr>"
  have w': "timersWellFormed ?r"
    using timersWellFormed_append [OF w, of ?new] nh
    by (simp add: timersWellFormed_def)
  have "filter (\<lambda>t. action t = ResetMascot \<and> nextHandle s \<noteq> handle t) (timers ?c)
      = filter (\<lambda>t. action t = ResetMascot \<and> hoverTimeout s \<noteq> Some (handle t)) (timers ?c)"
    by (rule filter_cong [OF refl]) (use gone below in auto)
  then have u: "untrackedResets ?r = untrackedResets ?c"
    by (simp add: count_defs ht)
  have st: "startupPending ?r = startupPending ?c" by (simp add: count_defs)
  from c w' u st have "resetInvariant d ?r"
    by (simp add: resetInvariant_def)
  with eq show ?thesis by simp
qed

lemma node_bindFirst [simp]: "node (bindFirst sels e) = node e"
  by (simp add: bindFirst_def split: option.splits)

lemma resetInvariant_setupHoverDetection:
  "resetInvariant d s \<Longrightarrow> resetInvariant d (setupHoverDetection s)"
  by (rule resetInvariant_fields) (simp_all add: setupHoverDetection_eq comp_def)

lemma resetInvariant_rearm:
  assumes inv: "resetInvariant d s" and t: "t \<in> set (timers s)" and rep: "repeating t"
  shows "resetInvariant d
     (s\<lparr>timers := filter (\<lambda>u. handle u \<noteq> handle t) (timers s) @ [t\<lparr>due := x\<rparr>]\<rparr>)"
proof -
  let ?f = "s\<lparr>timers := filter (\<lambda>u. handle u \<noteq> handle t) (timers s)\<rparr>"
  let ?r = "s\<lparr>timers := filter (\<lambda>u. handle u \<noteq> handle t) (timers s) @ [t\<lparr>due := x\<rparr>]\<rparr>"
  have f: "resetInvariant d ?f" using inv by (rule resetInvariant_filter)
  from inv t rep have a: "action t = Rescan" "handle t < nextHandle s"
    by (auto simp: resetInvariant_def timersWellFormed_def)
  from f have w: "timersWellFormed ?f" by (simp add: resetInvariant_def)
  have "handle t \<notin> handle ` set (filter (\<lambda>u. handle u \<noteq> handle t) (timers s))" by auto
  with w a have w': "timersWellFormed ?r"
    by (simp add: timersWellFormed_def)
  have c: "startupPending ?r = startupPending ?f" "untrackedResets ?r = untrackedResets ?f"
    using a by (simp_all add: count_defs)
  from f w' c show ?thesis by (simp add: resetInvariant_def)
qed

lemma resetInvariant_removed:
  assumes inv: "resetInvariant d s" and t: "t \<in> set (timers s)" and h: "handle t = h"
  shows "resetInvariant d
     (s\<lparr>timers := (if repeating t
                    then filter (\<lambda>u. handle u \<noteq> h) (timers s) @ [t\<lparr>due := x\<rparr>]
                    else filter (\<lambda>u. handle u \<noteq> h) (timers s))\<rparr>)"
  using resetInvariant_rearm [OF inv t, of x] resetInvariant_filter [OF inv, of "\<lambda>u. handle u \<noteq> h"] h
  by auto

lemma resetInvariant_unlock:
  "resetInvariant d s \<Longrightarrow> resetInvariant d (s\<lparr>isLocked := False, color := []\<rparr>)"
  by (rule resetInvariant_fields) simp_all

lemma resetInvariant_fadeSwap:
  "resetInvariant d s \<Longrightarrow>
   resetInvariant d (s\<lparr>src := x, currentExpression := e, opacity := y\<rparr>)"
  by (rule resetInvariant_fields) simp_all

lemma resetInvariant_startup:
  assumes inv: "resetInvariant d s" and s0: "startupPending s = []" and u0: "untrackedResets s = []"
  shows "resetInvariant d (checkScores s)"
proof -
  from inv have p: "page s = d" "map node (elements s) = nodes d"
    by (simp_all add: resetInvariant_def)
  note cs = checkScores_by_page [OF p]
  consider (low) "lowScorePage d" | (good) "\<not> lowScorePage d" "goodScoresPage d"
    | (none) "\<not> lowScorePage d" "\<not> goodScoresPage d" by blast
  then show ?thesis
  proof cases
    case low
    let ?l = "s\<lparr>isLocked := True, color := ''#dc2626''\<rparr>"
    have "resetInvariant d ?l" using inv by (rule resetInvariant_fields) simp_all
    then have "resetInvariant d (?l\<lparr>timers := timers ?l @
        [\<lparr>handle = nextHandle ?l, due = now ?l + 5000, delay = 5000, repeating = False,
          action = Unlock\<rparr>], nextHandle := Suc (nextHandle ?l)\<rparr>)"
      by (rule resetInvariant_append) simp_all
    with cs low show ?thesis by (simp add: setTimeout_def)
  next
    case good
    let ?c = "changeMascotExpression happy goodScoresMessage s"
    let ?new = "\<lparr>handle = nextHandle ?c, due = now ?c + 3000, delay = 3000, repeating = False,
                  action = ResetMascot\<rparr>"
    let ?r = "?c\<lparr>timers := timers ?c @ [?new], nextHandle := Suc (nextHandle ?c)\<rparr>"
    have c: "resetInvariant d ?c" using inv by (rule resetInvariant_changeMascotExpression)
    then have w: "timersWellFormed ?c" by (simp add: resetInvariant_def)
    from timersWellFormed_append [OF w, of ?new] have w': "timersWellFormed ?r" by simp
    from w have "hoverTimeout ?c \<noteq> Some (nextHandle ?c)"
      by (auto simp: timersWellFormed_def)
    then have u: "untrackedResets ?r = untrackedResets ?c @ [?new]"
      by (simp add: count_defs)
    have st: "startupPending ?r = startupPending ?c" by (simp add: count_defs)
    from c w' u st s0 u0 good have "resetInvariant d ?r"
      by (simp add: resetInvariant_def)
    with cs good show ?thesis by (simp add: goodScoresBranch_def setTimeout_def)
  next
    case none
    with cs inv show ?thesis by simp
  qed
qed

lemma length_filter_removed:
  assumes "t \<in> set ts" and "P t"
  shows "length (filter (\<lambda>u. handle u \<noteq> handle t \<and> P u) ts) < length (filter P ts)"
proof -
  have "length (filter (\<lambda>u. handle u \<noteq> handle t) (filter P ts)) < length (filter P ts)"
    by (rule length_filter_less [of t]) (use assms in auto)
  then show ?thesis by (simp add: conj_commute)
qed

lemma resetInvariant_fire:
  assumes inv: "resetInvariant d s"
  shows "resetInvariant d (fire h s)"
proof (cases "find (\<lambda>t. handle t = h) (timers s)")
  case None
  with inv show ?thesis by (simp add: fire_def)
next
  case (Some t)
  from find_handle_Some [OF Some] have t: "t \<in> set (timers s)" "handle t = h" by simp_all
  let ?table = "if repeating t
                then filter (\<lambda>u. handle u \<noteq> h) (timers s) @ [t\<lparr>due := now s + delay t\<rparr>]
                else filter (\<lambda>u. handle u \<noteq> h) (timers s)"
  let ?s = "s\<lparr>timers := ?table\<rparr>"
  have r: "resetInvariant d ?s" using inv t by (rule resetInvariant_removed)
  have f: "fire h s = runCallback (action t) ?s"
    using Some by (simp add: fire_def Let_def)
  show ?thesis
  proof (cases "action t")
    case (FadeSwap e)
    with r f resetInvariant_fadeSwap [OF r] show ?thesis by (simp add: runCallback_def)
  next
    case ResetMascot
    with f resetInvariant_resetMascot [OF r] show ?thesis by (simp add: runCallback_def)
  next
    case Unlock
    with f resetInvariant_unlock [OF r] show ?thesis by (simp add: runCallback_def)
  next
    case Rescan
    with f resetInvariant_setupHoverDetection [OF r] show ?thesis by (simp add: runCallback_def)
  next
    case Startup
    from inv t Startup have nr: "\<not> repeating t"
      by (auto simp: resetInvariant_def timersWellFormed_def)
    from t Startup have "length (filter (\<lambda>u. handle u \<noteq> handle t \<and> action u = Startup) (timers s))
        < length (filter (\<lambda>u. action u = Startup) (timers s))"
      by (intro length_filter_removed) simp_all
    moreover from inv have "length (startupPending s) + length (untrackedResets s) \<le> 1"
      by (simp add: resetInvariant_def)
    ultimately have
      "length (filter (\<lambda>u. handle u \<noteq> handle t \<and> action u = Startup) (timers s)) = 0 \<and>
       length (untrackedResets s) = 0"
      unfolding startupPending_def by linarith
    then have z: "filter (\<lambda>u. handle u \<noteq> h \<and> action u = Startup) (timers s) = []"
      "untrackedResets s = []"
      using t(2) by simp_all
    from z(1) nr have s0: "startupPending ?s = []"
      by (simp add: startupPending_def)
    have "length (untrackedResets ?s) \<le> length (untrackedResets s)"
      using nr by (simp add: count_defs length_filter_conj_le)
    with z(2) have u0: "untrackedResets ?s = []" by simp
    from resetInvariant_setupHoverDetection [OF resetInvariant_startup [OF r s0 u0]] f Startup
    show ?thesis by (simp add: runCallback_def)
  qed
qed

lemma resetInvariant_tick: "resetInvariant d s \<Longrightarrow> resetInvariant d (tick s)"
proof -
  assume a: "resetInvariant d s"
  have "resetInvariant d (s\<lparr>now := Suc (now s)\<rparr>)"
    using a by (rule resetInvariant_fields) simp_all
  then have "resetInvariant d (foldl (\<lambda>acc h. fire h acc) (s\<lparr>now := Suc (now s)\<rparr>)
      (map handle (filter (\<lambda>t. due t \<le> Suc (now s)) (timers s))))"
    by (rule foldl_preserves [where P = "resetInvariant d", rotated]) (rule resetInvariant_fire)
  then show ?thesis by (simp add: tick_def Let_def)
qed

lemma resetInvariant_step: "resetInvariant d s \<Longrightarrow> resetInvariant d (step s ev)"
proof (cases ev)
  case (Elapse n)
  assume a: "resetInvariant d s"
  have "resetInvariant d ((tick ^^ n) s)"
    by (induction n) (simp_all add: a resetInvariant_tick)
  with Elapse show ?thesis by simp
next
  case (MouseEnter i)
  assume a: "resetInvariant d s"
  then have "resetInvariant d (foldl (\<lambda>acc sel. onMouseEnter sel acc) s (listeners (elements s ! i)))"
    by (rule foldl_preserves [where P = "resetInvariant d", rotated])
       (rule resetInvariant_onMouseEnter)
  with MouseEnter a show ?thesis by simp
next
  case (MouseLeave i)
  assume a: "resetInvariant d s"
  then have "resetInvariant d (foldl (\<lambda>acc sel. onMouseLeave sel acc) s (listeners (elements s ! i)))"
    by (rule foldl_preserves [where P = "resetInvariant d", rotated])
       (rule resetInvariant_onMouseLeave)
  with MouseLeave a show ?thesis by simp
qed

lemma resetInvariant_run: "resetInvariant d (run (boot url caption d) evs)"
proof -
  have "resetInvariant d s \<Longrightarrow> resetInvariant d (foldl step s evs)" for s
    by (induction evs arbitrary: s) (simp_all add: resetInvariant_step)
  moreover have "resetInvariant d (boot url caption d)"
    by (simp add: resetInvariant_def timersWellFormed_def count_defs boot_eq comp_def
          loadElement_def)
  ultimately show ?thesis by (simp add: run_def)
qed


lemma at_most_one_handle:
  "distinct (map handle ts) \<Longrightarrow> length (filter (\<lambda>t. P t \<and> handle t = h) ts) \<le> 1"
proof (induction ts)
  case Nil
  show ?case by simp
next
  case (Cons a ts)
  show ?case
  proof (cases "handle a = h")
    case True
    with Cons.prems have "h \<notin> handle ` set ts" by simp
    then have "\<forall>t \<in> set ts. handle t \<noteq> h" by blast
    then have "filter (\<lambda>t. P t \<and> handle t = h) ts = []" by (simp add: filter_empty_conv)
    then show ?thesis by simp
  next
    case False
    with Cons show ?thesis by simp
  qed
qed

lemma length_trackedResets:
  assumes "timersWellFormed s"
  shows "length (trackedResets s) \<le> 1"
proof (cases "hoverTimeout s")
  case None
  then show ?thesis by (simp add: trackedResets_def)
next
  case (Some h)
  from assms have "distinct (map handle (timers s))" by (simp add: timersWellFormed_def)
  from at_most_one_handle [OF this, of "\<lambda>t. action t = ResetMascot" h]
  have "length (filter (\<lambda>t. action t = ResetMascot \<and> handle t = h) (timers s)) \<le> 1" .
  moreover have "filter (\<lambda>t. action t = ResetMascot \<and> Some h = Some (handle t)) (timers s)
      = filter (\<lambda>t. action t = ResetMascot \<and> handle t = h) (timers s)"
    by (rule filter_cong [OF refl]) auto
  ultimately show ?thesis by (simp add: trackedResets_def Some)
qed

lemma length_resetTimers:
  "length (resetTimers s) = length (trackedResets s) + length (untrackedResets s)"
proof -
  have "length (filter (\<lambda>t. hoverTimeout s = Some (handle t)) (resetTimers s))
      + length (filter (\<lambda>t. \<not> hoverTimeout s = Some (handle t)) (resetTimers s))
      = length (resetTimers s)"
    by (rule sum_length_filter_compl)
  then show ?thesis by (simp add: count_defs)
qed

lemma trackedResets_changeMascotExpression [simp]:
  "trackedResets (changeMascotExpression e m s) = trackedResets s"
  by (simp add: changeMascotExpression_def setTimeout_def Let_def count_defs)

lemma trackedResets_clearTimeout: "trackedResets (clearTimeout (hoverTimeout s) s) = []"
  by (cases "hoverTimeout s") (auto simp: clearTimeout_def count_defs filter_empty_conv)

lemma hoverTimeout_clearTimeout [simp]: "hoverTimeout (clearTimeout h s) = hoverTimeout s"
  by (cases h) (simp_all add: clearTimeout_def)

lemma trackedResets_onMouseEnter: "trackedResets (onMouseEnter sel s) = []"
proof -
  let ?c = "clearTimeout (hoverTimeout s) s"
  have "trackedResets ?c = []" by (rule trackedResets_clearTimeout)
  then show ?thesis
    by (simp add: onMouseEnter_def Let_def split: option.splits prod.splits)
qed

lemma trackedResets_onMouseLeave:
  assumes "timersWellFormed s"
  shows "trackedResets (onMouseLeave sel s)
     = [\<lparr>handle = nextHandle s, due = now s + 300, delay = 300, repeating = False,
         action = ResetMascot\<rparr>]"
proof -
  let ?c = "clearTimeout (hoverTimeout s) s"
  let ?new = "\<lparr>handle = nextHandle s, due = now s + 300, delay = 300, repeating = False,
                action = ResetMascot\<rparr>"
  have eq: "onMouseLeave sel s
      = ?c\<lparr>timers := timers ?c @ [?new], nextHandle := Suc (nextHandle s),
            hoverTimeout := Some (nextHandle s)\<rparr>"
    by (cases "hoverTimeout s") (simp_all add: onMouseLeave_def setTimeout_def clearTimeout_def)
  have "\<forall>t \<in> set (timers ?c). handle t \<noteq> nextHandle s"
    using assms by (cases "hoverTimeout s") (auto simp: timersWellFormed_def clearTimeout_def)
  then have "filter (\<lambda>t. action t = ResetMascot \<and> nextHandle s = handle t) (timers ?c) = []"
    by (auto simp: filter_empty_conv)
  then show ?thesis by (simp add: eq count_defs)
qed

text \<open>
  C5, as the code has it. On every document, after any sequence of mouse events and
  passing time: at most one pending reset timer has its handle in \<open>hoverTimeout\<close>, and every
  pending reset timer set by a mouseleave (the ones with the 300ms delay) is that one; at
  most one further reset timer is pending, the score check's, and none when the page has no
  good scores; so at most two reset timers are pending, and at most one without good
  scores. After a mouseenter listener has run, no reset timer of \<open>hoverTimeout\<close> is pending;
  after a mouseleave listener has run, exactly the one it has just set is.
\<close>

theorem hover_reset_timer_is_tracked:
  "length (trackedResets (run (boot url caption d) evs)) \<le> 1 \<and>
   length (untrackedResets (run (boot url caption d) evs)) \<le> 1 \<and>
   (\<forall>t \<in> set (resetTimers (run (boot url caption d) evs)).
      delay t = 300 \<longrightarrow> hoverTimeout (run (boot url caption d) evs) = Some (handle t)) \<and>
   length (resetTimers (run (boot url caption d) evs)) \<le> 2 \<and>
   (\<not> goodScoresPage d \<longrightarrow> length (resetTimers (run (boot url caption d) evs)) \<le> 1) \<and>
   trackedResets (onMouseEnter sel (run (boot url caption d) evs)) = [] \<and>
   trackedResets (onMouseLeave sel (run (boot url caption d) evs))
     = [\<lparr>handle = nextHandle (run (boot url caption d) evs),
         due = now (run (boot url caption d) evs) + 300, delay = 300, repeating = False,
         action = ResetMascot\<rparr>]"
proof -
  let ?s = "run (boot url caption d) evs"
  have inv: "resetInvariant d ?s" by (rule resetInvariant_run)
  then have w: "timersWellFormed ?s" by (simp add: resetInvariant_def)
  have 1: "length (trackedResets ?s) \<le> 1" using w by (rule length_trackedResets)
  have 2: "length (untrackedResets ?s) \<le> 1" using inv by (simp add: resetInvariant_def)
  have 3: "\<forall>t \<in> set (resetTimers ?s). delay t = 300 \<longrightarrow> hoverTimeout ?s = Some (handle t)"
  proof (intro ballI impI)
    fix t
    assume t: "t \<in> set (resetTimers ?s)" and d: "delay t = 300"
    show "hoverTimeout ?s = Some (handle t)"
    proof (rule ccontr)
      assume "hoverTimeout ?s \<noteq> Some (handle t)"
      with t have "t \<in> set (untrackedResets ?s)" by (simp add: count_defs)
      with inv have "delay t = 3000" by (simp add: resetInvariant_def)
      with d show False by simp
    qed
  qed
  from 1 2 have 4: "length (resetTimers ?s) \<le> 2" by (simp add: length_resetTimers)
  have 5: "\<not> goodScoresPage d \<longrightarrow> length (resetTimers ?s) \<le> 1"
    using inv 1 by (simp add: length_resetTimers resetInvariant_def)
  note 6 = trackedResets_onMouseEnter [of sel ?s]
  note 7 = trackedResets_onMouseLeave [OF w, of sel]
  from 1 2 3 4 5 6 7 show ?thesis by blast
qed

lemma scanned_example:
  "scanned (examplePage ats)
     = [\<lparr>node = exampleButton, marked = True, listeners = [TagType ''button'' ''submit'']\<rparr>]"
  by (simp add: scanned_def bindFirst_def expressionMap_def examplePage_def exampleButton_def
        loadElement_def)

lemma example_hover_85:
  "run (exampleBoot ''85'') [Elapse 500, MouseEnter 0, MouseLeave 0] =
     \<lparr>page = examplePage ''85'', elements = scanned (examplePage ''85''),
      basePath = ''/static/images/'', src = ''/static/images/fox_standing.png'',
      opacity = ''0.5'', transition = ''opacity 0.2s ease'',
      textContent = ''Ready? Let'' @ [CHR 0x27] @ ''s do this! ''
                      @ [CHR 0xF0, CHR 0x9F, CHR 0x92, CHR 0xAA],
      color = [], currentExpression = standing, isLocked = False, hoverTimeout = Some 6,
      timers = [\<lparr>handle = 2, due = 3000, delay = 3000, repeating = True, action = Rescan\<rparr>,
                \<lparr>handle = 3, due = 650, delay = 150, repeating = False,
                  action = FadeSwap happy\<rparr>,
                \<lparr>handle = 4, due = 3500, delay = 3000, repeating = False,
                  action = ResetMascot\<rparr>,
                \<lparr>handle = 5, due = 650, delay = 150, repeating = False,
                  action = FadeSwap happy\<rparr>,
                \<lparr>handle = 6, due = 800, delay = 300, repeating = False,
                  action = ResetMascot\<rparr>],
      nextHandle = 7, now = 500\<rparr>"
  by (simp only: run_def foldl.simps step.simps exampleBoot_def
        good_500 [OF goodScoresPage_example])
     (simp add: scanned_example onMouseEnter_def onMouseLeave_def clearTimeout_def
        setTimeout_def changeMascotExpression_def expressionMap_def basePathOf_def Let_def)

text \<open>
  C5 as stated fails on the example page with the ATS score 85: when the pointer enters and
  leaves the button right after the score check, two reset timers are pending together,
  the score check's (due at 3500ms) and the mouseleave's (due at 800ms).
\<close>

theorem two_reset_timers_pending:
  "map due (resetTimers (run (exampleBoot ''85'') [Elapse 500, MouseEnter 0, MouseLeave 0]))
     = [3500, 800]"
  by (simp add: example_hover_85 resetTimers_def)

lemma not_goodScoresPage_example: "\<not> goodScoresPage (examplePage ''45'')"
  using lowScorePage_example by (simp add: goodScoresPage_def)

theorem hover_reset_timer_is_tracked_witness:
  "\<lparr>handle = 6, due = 800, delay = 300, repeating = False, action = ResetMascot\<rparr>
     \<in> set (resetTimers (run (exampleBoot ''85'') [Elapse 500, MouseEnter 0, MouseLeave 0])) \<and>
   hoverTimeout (run (exampleBoot ''85'') [Elapse 500, MouseEnter 0, MouseLeave 0]) = Some 6 \<and>
   \<not> goodScoresPage (examplePage ''45'') \<and>
   length (resetTimers (run (exampleBoot ''45'') [Elapse 500, MouseEnter 0, MouseLeave 0])) \<le> 1"
proof -
  let ?t = "\<lparr>handle = 6, due = 800, delay = 300, repeating = False, action = ResetMascot\<rparr>"
  have m: "?t \<in> set (resetTimers (run (exampleBoot ''85'') [Elapse 500, MouseEnter 0, MouseLeave 0]))"
    by (simp add: example_hover_85 resetTimers_def)
  from hover_reset_timer_is_tracked [of "''/static/images/fox_standing.png''" "[]"
      "examplePage ''85''" "[Elapse 500, MouseEnter 0, MouseLeave 0]"] m
  have h: "hoverTimeout (run (exampleBoot ''85'') [Elapse 500, MouseEnter 0, MouseLeave 0])
      = Some (handle ?t)"
    unfolding exampleBoot_def by fastforce
  from hover_reset_timer_is_tracked [of "''/static/images/fox_standing.png''" "[]"
      "examplePage ''45''" "[Elapse 500, MouseEnter 0, MouseLeave 0]"] not_goodScoresPage_example
  have l: "length (resetTimers (run (exampleBoot ''45'') [Elapse 500, MouseEnter 0, MouseLeave 0]))
      \<le> 1"
    unfolding exampleBoot_def by blast
  from m h l not_goodScoresPage_example show ?thesis by simp
qed

end
